theory Spec2Isabelle
  imports Main
begin

section \<open>Text: Python strings, their character classes and methods\<close>

text \<open>
  A Python \<open>str\<close> is a sequence of code points. It is modelled as a \<open>string\<close>, one
  \<open>char\<close> per code point, which covers the code points below 256. On these the methods
  \<open>str.lower\<close> and \<open>str.strip\<close> and the regular-expression classes \<open>\s\<close> and \<open>\d\<close>
  work character by character, with the tables below (those of CPython for the first
  256 code points).
\<close>

definition isspace :: "char \<Rightarrow> bool" where
  \<comment> \<open>\<open>str.isspace\<close> and the class \<open>\s\<close> of a \<open>str\<close> pattern: TAB..CR, FS..US, space, NEL, NBSP\<close>
  "isspace c \<longleftrightarrow> (of_char c :: nat) \<in> {9, 10, 11, 12, 13, 28, 29, 30, 31, 32, 133, 160}"

definition isdigit :: "char \<Rightarrow> bool" where
  \<comment> \<open>the class \<open>\d\<close>: the decimal digits (below 256 only \<open>0\<close>..\<open>9\<close>)\<close>
  "isdigit c \<longleftrightarrow> 48 \<le> (of_char c :: nat) \<and> (of_char c :: nat) \<le> 57"

definition lower_char :: "char \<Rightarrow> char" where
  \<comment> \<open>\<open>A\<close>..\<open>Z\<close> and the capital letters of Latin-1 (192..222 without the sign 215)\<close>
  "lower_char c =
     (let n = (of_char c :: nat)
      in if (65 \<le> n \<and> n \<le> 90) \<or> (192 \<le> n \<and> n \<le> 222 \<and> n \<noteq> 215)
         then char_of (n + 32) else c)"

definition lower :: "string \<Rightarrow> string" where
  "lower s = map lower_char s"

definition lstrip :: "string \<Rightarrow> string" where
  "lstrip s = dropWhile isspace s"

fun rstrip :: "string \<Rightarrow> string" where
  "rstrip [] = []"
| "rstrip (c # cs) = (if isspace c \<and> rstrip cs = [] then [] else c # rstrip cs)"

definition strip :: "string \<Rightarrow> string" where
  "strip s = lstrip (rstrip s)"

text \<open>
  \<open>re.sub(cls+, rep, s)\<close> for a character class \<open>cls\<close>: every maximal run of characters of
  the class is replaced by \<open>rep\<close>.
\<close>

function sub_runs :: "(char \<Rightarrow> bool) \<Rightarrow> string \<Rightarrow> string \<Rightarrow> string" where
  "sub_runs cls rep [] = []"
| "sub_runs cls rep (c # cs) =
     (if cls c then rep @ sub_runs cls rep (dropWhile cls cs)
      else c # sub_runs cls rep cs)"
  by pat_completeness auto
termination
  by (relation "measure (\<lambda>(cls, rep, s). length s)")
     (auto simp: length_dropWhile_le less_Suc_eq_le)

text \<open>\<open>s.split(sep, 1)[0]\<close> for a one-character separator: the text before its first occurrence.\<close>

definition split_first :: "char \<Rightarrow> string \<Rightarrow> string" where
  "split_first sep s = takeWhile (\<lambda>c. c \<noteq> sep) s"

section \<open>Identity key\<close>

definition is_key_char :: "char \<Rightarrow> bool" where
  \<comment> \<open>the class \<open>[a-z0-9]\<close>\<close>
  "is_key_char c \<longleftrightarrow>
     (97 \<le> (of_char c :: nat) \<and> (of_char c :: nat) \<le> 122) \<or> isdigit c"

definition norm_str :: "string \<Rightarrow> string" where
  \<comment> \<open>the body of \<open>norm\<close> below its guard\<close>
  "norm_str v0 =
     (let v1 = strip (lower v0);
          v2 = sub_runs (\<lambda>c. \<not> is_key_char c) '' '' v1
      in strip (sub_runs isspace '' '' v2))"

definition norm :: "string option \<Rightarrow> string" where
  "norm v = (case v of None \<Rightarrow> [] | Some s \<Rightarrow> if s = [] then [] else norm_str s)"

definition raw_title :: "string option \<Rightarrow> string" where
  \<comment> \<open>the variable \<open>raw_title\<close> of \<open>key_for\<close> at its return statement\<close>
  "raw_title title =
     (let t0 = strip (lower (case title of None \<Rightarrow> [] | Some t \<Rightarrow> t));
          t1 = (if CHR ''@'' \<in> set t0 then strip (split_first CHR ''@'' t0) else t0);
          t2 = (if CHR '','' \<in> set t1 then strip (split_first CHR '','' t1) else t1)
      in t2)"

definition key_for :: "string option \<Rightarrow> string option \<Rightarrow> string" where
  "key_for title company = norm (Some (raw_title title)) @ ''|'' @ norm company"

text \<open>
  The key as the specification words it: the second split is an \<open>else if\<close>, taken only
  when the title has no \<open>@\<close>.
\<close>

definition computeKey_spec :: "string option \<Rightarrow> string option \<Rightarrow> string" where
  "computeKey_spec title company =
     (let t0 = strip (lower (case title of None \<Rightarrow> [] | Some t \<Rightarrow> t));
          role = (if CHR ''@'' \<in> set t0 then split_first CHR ''@'' t0
                  else if CHR '','' \<in> set t0 then split_first CHR '','' t0
                  else t0)
      in norm (Some role) @ ''|'' @ norm company)"

text \<open>What a key fragment may contain: characters of \<open>[a-z0-9]\<close> and spaces, no two spaces in a row.\<close>

fun single_spaced :: "string \<Rightarrow> bool" where
  "single_spaced (a # b # cs) = ((a \<noteq> CHR '' '' \<or> b \<noteq> CHR '' '') \<and> single_spaced (b # cs))"
| "single_spaced cs = True"

definition key_fragment :: "string \<Rightarrow> bool" where
  "key_fragment s \<longleftrightarrow> list_all (\<lambda>c. is_key_char c \<or> c = CHR '' '') s \<and> single_spaced s"

section \<open>Postings and the merger\<close>

text \<open>
  The dataclass \<open>Job\<close>, with the types of its annotations: \<open>str | None\<close> is a
  \<open>string option\<close>, \<open>list[str] | None\<close> a \<open>string list option\<close>.
\<close>

record Job =
  job_id :: string
  title :: string
  company :: "string option"
  url :: string
  source :: string
  location :: "string option"
  date_posted :: "string option"
  salary :: "string option"
  employment_type :: "string option"
  skills :: "string list option"
  categories :: "string list option"
  summary :: "string option"
  full_offer_text :: "string option"
  full_offer_html :: "string option"
  apply_url :: "string option"
  company_url :: "string option"
  image_url :: "string option"
  dedupe_key :: "string option"

definition truthy :: "'a list option \<Rightarrow> bool" where
  \<comment> \<open>Python's truth value of a \<open>str | None\<close> or \<open>list | None\<close>: neither \<open>None\<close> nor empty\<close>
  "truthy v \<longleftrightarrow> (case v of None \<Rightarrow> False | Some xs \<Rightarrow> xs \<noteq> [])"

definition score :: "Job \<Rightarrow> nat" where
  "score job =
     length (filter (\<lambda>field. field)
       [truthy (company job), truthy (location job), truthy (date_posted job),
        truthy (salary job), truthy (employment_type job), truthy (skills job),
        truthy (full_offer_text job), truthy (apply_url job), truthy (company_url job),
        truthy (image_url job)])"

definition offer_len :: "Job \<Rightarrow> nat" where
  \<comment> \<open>\<open>len(job.full_offer_text or "")\<close>\<close>
  "offer_len job = (case full_offer_text job of None \<Rightarrow> 0 | Some t \<Rightarrow> length t)"

definition supersedes :: "Job \<Rightarrow> Job \<Rightarrow> bool" where
  \<comment> \<open>the condition under which \<open>dedupe\<close> replaces \<open>existing\<close> by \<open>job\<close>\<close>
  "supersedes job existing \<longleftrightarrow>
     score job > score existing
     \<or> (score job = score existing \<and> offer_len job > offer_len existing)"

text \<open>
  The dict \<open>by_key\<close> keeps its keys in insertion order, and assigning to a key that is
  present keeps the key's place: an association list with update in place.
\<close>

fun dict_set :: "'k \<Rightarrow> 'v \<Rightarrow> ('k \<times> 'v) list \<Rightarrow> ('k \<times> 'v) list" where
  "dict_set k v [] = [(k, v)]"
| "dict_set k v ((k', v') # d) = (if k' = k then (k, v) # d else (k', v') # dict_set k v d)"

fun dedupe_loop :: "(string \<times> Job) list \<Rightarrow> Job list \<Rightarrow> (string \<times> Job) list" where
  "dedupe_loop by_key [] = by_key"
| "dedupe_loop by_key (job0 # jobs) =
     (let key = key_for (Some (title job0)) (company job0);
          job = job0\<lparr>dedupe_key := Some key\<rparr>
      in case map_of by_key key of
           None \<Rightarrow> dedupe_loop (dict_set key job by_key) jobs
         | Some existing \<Rightarrow>
             if supersedes job existing then dedupe_loop (dict_set key job by_key) jobs
             else dedupe_loop by_key jobs)"

record stats =
  input_count :: int
  output_count :: int
  duplicates_removed :: int

definition dedupe :: "Job list \<Rightarrow> Job list \<times> stats" where
  "dedupe jobs =
     (let deduped = map snd (dedupe_loop [] jobs)
      in (deduped,
          \<lparr>input_count = int (length jobs),
           output_count = int (length deduped),
           duplicates_removed = int (length jobs) - int (length deduped)\<rparr>))"

section \<open>Regular expressions\<close>

text \<open>
  The patterns of the extractors are built from character classes, sequence, alternative,
  the greedy option \<open>r?\<close> and the greedy repetitions \<open>cls*\<close> and \<open>cls{0,n}\<close> of a class.
  \<open>ms r s\<close> lists what is left of \<open>s\<close> after each way \<open>r\<close> can match at its start, in the
  order in which a backtracking matcher tries them: more repetitions first, the left
  alternative first.
\<close>

datatype rx =
    Eps
  | Chr "char \<Rightarrow> bool"
  | Seq rx rx
  | Alt rx rx
  | Opt rx
  | Star "char \<Rightarrow> bool"
  | UpTo nat "char \<Rightarrow> bool"

fun greedy :: "(char \<Rightarrow> bool) \<Rightarrow> string \<Rightarrow> string list" where
  "greedy cls [] = [[]]"
| "greedy cls (c # cs) = (if cls c then greedy cls cs @ [c # cs] else [c # cs])"

fun greedy_upto :: "nat \<Rightarrow> (char \<Rightarrow> bool) \<Rightarrow> string \<Rightarrow> string list" where
  "greedy_upto 0 cls s = [s]"
| "greedy_upto (Suc n) cls [] = [[]]"
| "greedy_upto (Suc n) cls (c # cs) =
     (if cls c then greedy_upto n cls cs @ [c # cs] else [c # cs])"

fun ms :: "rx \<Rightarrow> string \<Rightarrow> string list" where
  "ms Eps s = [s]"
| "ms (Chr cls) s = (case s of [] \<Rightarrow> [] | c # cs \<Rightarrow> if cls c then [cs] else [])"
| "ms (Seq a b) s = concat (map (ms b) (ms a s))"
| "ms (Alt a b) s = ms a s @ ms b s"
| "ms (Opt a) s = ms a s @ [s]"
| "ms (Star cls) s = greedy cls s"
| "ms (UpTo n cls) s = greedy_upto n cls s"

text \<open>
  A pattern \<open>pre(grp)\<close> whose capturing group ends the pattern: the group of the first
  match at the start of \<open>s\<close>, and \<open>re.search\<close>, which tries every start from the left.
\<close>

definition match_here :: "rx \<Rightarrow> rx \<Rightarrow> string \<Rightarrow> string option" where
  "match_here pre grp s =
     (case concat (map (\<lambda>s1. map (\<lambda>s2. take (length s1 - length s2) s1) (ms grp s1)) (ms pre s))
      of [] \<Rightarrow> None | g # _ \<Rightarrow> Some g)"

fun search :: "rx \<Rightarrow> rx \<Rightarrow> string \<Rightarrow> string option" where
  "search pre grp [] = match_here pre grp []"
| "search pre grp (c # cs) =
     (case match_here pre grp (c # cs) of Some g \<Rightarrow> Some g | None \<Rightarrow> search pre grp cs)"

fun lit_ci :: "string \<Rightarrow> rx" where
  \<comment> \<open>a literal of lower-case letters under the flag \<open>(?i)\<close>\<close>
  "lit_ci [] = Eps"
| "lit_ci (c # cs) = Seq (Chr (\<lambda>x. lower_char x = c)) (lit_ci cs)"

section \<open>Salary\<close>

definition digit_or_comma :: "char \<Rightarrow> bool" where
  "digit_or_comma c \<longleftrightarrow> isdigit c \<or> c = CHR '',''"

definition magnitude :: "char \<Rightarrow> bool" where
  "magnitude c \<longleftrightarrow> c \<in> set ''kKmM''"

definition gap_char :: "char \<Rightarrow> bool" where
  \<comment> \<open>the class \<open>[^\d$]\<close>\<close>
  "gap_char c \<longleftrightarrow> \<not> isdigit c \<and> c \<noteq> CHR ''$''"

definition range_sep :: rx where
  \<comment> \<open>the separator of a range: spaces, an en dash or a hyphen, spaces; the en dash (U+2013) is not among the characters of the model\<close>
  "range_sep = Seq (Star isspace) (Seq (Chr (\<lambda>c. c = CHR ''-'')) (Star isspace))"

definition keyword_amount :: rx where
  \<comment> \<open>\<open>\$?\d[\d,]*(?:[kKmM])?\<close>\<close>
  "keyword_amount =
     Seq (Opt (Chr (\<lambda>c. c = CHR ''$'')))
       (Seq (Chr isdigit) (Seq (Star digit_or_comma) (Opt (Chr magnitude))))"

definition keyword_pre :: rx where
  \<comment> \<open>\<open>(?i)(?:salary|compensation)[^\d$]{0,20}\<close>\<close>
  "keyword_pre = Seq (Alt (lit_ci ''salary'') (lit_ci ''compensation'')) (UpTo 20 gap_char)"

definition keyword_group :: rx where
  "keyword_group = Seq keyword_amount (Opt (Seq range_sep keyword_amount))"

definition dollar_amount :: rx where
  \<comment> \<open>\<open>\$\d[\d,]*(?:\.\d+)?(?:[kKmM])?\<close>\<close>
  "dollar_amount =
     Seq (Chr (\<lambda>c. c = CHR ''$''))
       (Seq (Chr isdigit)
         (Seq (Star digit_or_comma)
           (Seq (Opt (Seq (Chr (\<lambda>c. c = CHR ''.'')) (Seq (Chr isdigit) (Star isdigit))))
                (Opt (Chr magnitude)))))"

definition dollar_group :: rx where
  "dollar_group = Seq dollar_amount (Opt (Seq range_sep dollar_amount))"

definition keyword_match :: "string \<Rightarrow> string option" where
  "keyword_match text = search keyword_pre keyword_group text"

definition dollar_match :: "string \<Rightarrow> string option" where
  "dollar_match text = search Eps dollar_group text"

definition parse_salary :: "string \<Rightarrow> string option" where
  "parse_salary text =
     (case keyword_match text of
        Some g \<Rightarrow> Some (strip g)
      | None \<Rightarrow> (case dollar_match text of Some g \<Rightarrow> Some (strip g) | None \<Rightarrow> None))"

text \<open>
  What a text must contain for a salary to be found: a \<open>$\<close> directly before a digit, or
  one of the two keywords (in any case) followed, after at most twenty characters that
  are neither digits nor \<open>$\<close>, by a digit.
\<close>

fun has_dollar_amount :: "string \<Rightarrow> bool" where
  "has_dollar_amount (a # b # cs) = ((a = CHR ''$'' \<and> isdigit b) \<or> has_dollar_amount (b # cs))"
| "has_dollar_amount cs = False"

fun number_within :: "nat \<Rightarrow> string \<Rightarrow> bool" where
  "number_within n [] = False"
| "number_within 0 (c # cs) = isdigit c"
| "number_within (Suc n) (c # cs) = (isdigit c \<or> (gap_char c \<and> number_within n cs))"

definition starts_ci :: "string \<Rightarrow> string \<Rightarrow> bool" where
  "starts_ci kw s \<longleftrightarrow> lower (take (length kw) s) = kw"

definition anchored_here :: "string \<Rightarrow> bool" where
  "anchored_here s \<longleftrightarrow>
     (starts_ci ''salary'' s \<and> number_within 20 (drop 6 s))
     \<or> (starts_ci ''compensation'' s \<and> number_within 20 (drop 12 s))"

fun keyword_anchored :: "string \<Rightarrow> bool" where
  "keyword_anchored [] = False"
| "keyword_anchored (c # cs) = (anchored_here (c # cs) \<or> keyword_anchored cs)"

section \<open>Employment type and skills\<close>

definition is_word :: "char option \<Rightarrow> bool" where
  \<comment> \<open>the class \<open>\w\<close> below 256: letters, digits and numeric signs, the underscore;
      \<open>None\<close> is the start or the end of the text\<close>
  "is_word x \<longleftrightarrow>
     (case x of None \<Rightarrow> False
      | Some c \<Rightarrow>
          (let n = (of_char c :: nat)
           in (48 \<le> n \<and> n \<le> 57) \<or> (65 \<le> n \<and> n \<le> 90) \<or> n = 95 \<or> (97 \<le> n \<and> n \<le> 122)
              \<or> n \<in> {170, 178, 179, 181, 185, 186, 188, 189, 190}
              \<or> (192 \<le> n \<and> n \<noteq> 215 \<and> n \<noteq> 247)))"

definition first_char :: "string \<Rightarrow> char option" where
  "first_char s = (case s of [] \<Rightarrow> None | c # _ \<Rightarrow> Some c)"

definition word_match :: "rx \<Rightarrow> char option \<Rightarrow> string \<Rightarrow> string list" where
  \<comment> \<open>the matches of \<open>\b(grp)\b\<close> at the start of \<open>s\<close>, which follows the character \<open>prev\<close>\<close>
  "word_match grp prev s =
     (if is_word prev \<noteq> is_word (first_char s)
      then concat (map (\<lambda>s2. let g = take (length s - length s2) s;
                                 prior = (if g = [] then prev else Some (last g))
                             in if is_word prior \<noteq> is_word (first_char s2) then [g] else [])
                       (ms grp s))
      else [])"

fun search_words :: "rx \<Rightarrow> char option \<Rightarrow> string \<Rightarrow> string option" where
  "search_words grp prev [] = (case word_match grp prev [] of [] \<Rightarrow> None | g # _ \<Rightarrow> Some g)"
| "search_words grp prev (c # cs) =
     (case word_match grp prev (c # cs) of
        [] \<Rightarrow> search_words grp (Some c) cs
      | g # _ \<Rightarrow> Some g)"

definition hyphen_or_space :: "char \<Rightarrow> bool" where
  "hyphen_or_space c \<longleftrightarrow> c = CHR ''-'' \<or> isspace c"

definition employment_group :: rx where
  \<comment> \<open>\<open>(?i)full[-\s]?time|part[-\s]?time|contract|temporary|intern(ship)?\<close>\<close>
  "employment_group =
     Alt (Seq (lit_ci ''full'') (Seq (Opt (Chr hyphen_or_space)) (lit_ci ''time'')))
      (Alt (Seq (lit_ci ''part'') (Seq (Opt (Chr hyphen_or_space)) (lit_ci ''time'')))
        (Alt (lit_ci ''contract'')
          (Alt (lit_ci ''temporary'') (Seq (lit_ci ''intern'') (Opt (lit_ci ''ship''))))))"

definition parse_employment :: "string \<Rightarrow> string option" where
  "parse_employment text =
     (case search_words employment_group None text of None \<Rightarrow> None | Some g \<Rightarrow> Some (strip g))"

fun contains :: "string \<Rightarrow> string \<Rightarrow> bool" where
  \<comment> \<open>\<open>sub in s\<close>\<close>
  "contains sub [] = (sub = [])"
| "contains sub (c # cs) = (take (length sub) (c # cs) = sub \<or> contains sub cs)"

definition capitalize :: "string \<Rightarrow> string" where
  \<comment> \<open>\<open>str.capitalize\<close> on a word of ASCII letters, which is what the vocabulary holds\<close>
  "capitalize k =
     (case k of [] \<Rightarrow> []
      | c # cs \<Rightarrow>
          (if 97 \<le> (of_char c :: nat) \<and> (of_char c :: nat) \<le> 122
           then char_of ((of_char c :: nat) - 32) else c) # lower cs)"

definition skills_from_text :: "string \<Rightarrow> string list" where
  "skills_from_text text =
     (let keys = [''django'', ''python'', ''postgresql'', ''aws'', ''kubernetes'', ''docker'',
                  ''rest'', ''api'', ''pytest'', ''sql'', ''react''];
          found = filter (\<lambda>k. contains k (lower text)) keys;
          cases = [(''aws'', ''AWS''), (''api'', ''API''), (''rest'', ''REST''), (''sql'', ''SQL'')]
      in map (\<lambda>k. case map_of cases k of Some v \<Rightarrow> v | None \<Rightarrow> capitalize k) found)"

section \<open>Markup and URLs\<close>

text \<open>
  \<open>re.sub(r"<[^>]+>", " ", value)\<close>: a \<open><\<close>, then every character up to the next \<open>>\<close>,
  at least one, then that \<open>>\<close>. Where the run after \<open><\<close> is empty or no \<open>>\<close> follows it,
  no shorter run matches either, and the \<open><\<close> stays.
\<close>

function sub_tags :: "string \<Rightarrow> string" where
  "sub_tags [] = []"
| "sub_tags (c # cs) =
     (if c = CHR ''<'' \<and> takeWhile (\<lambda>x. x \<noteq> CHR ''>'') cs \<noteq> []
           \<and> dropWhile (\<lambda>x. x \<noteq> CHR ''>'') cs \<noteq> []
      then CHR '' '' # sub_tags (tl (dropWhile (\<lambda>x. x \<noteq> CHR ''>'') cs))
      else c # sub_tags cs)"
  by pat_completeness auto
termination
  by (relation "measure length")
     (auto simp: less_Suc_eq_le intro: le_trans [OF diff_le_self length_dropWhile_le])

text \<open>
  The library functions \<open>html.unescape\<close> and \<open>urllib.parse.urlparse\<close> are parameters:
  \<open>unescape\<close> maps a text to a text, and \<open>urlparse\<close> gives the scheme and the network
  location of a URL, or \<open>None\<close> where the library raises.
\<close>

definition strip_tags :: "(string \<Rightarrow> string) \<Rightarrow> string \<Rightarrow> string" where
  "strip_tags unescape v = strip (sub_runs isspace '' '' (unescape (sub_tags v)))"

definition canonical_site_url ::
  "(string \<Rightarrow> (string \<times> string) option) \<Rightarrow> string option \<Rightarrow> string option" where
  "canonical_site_url urlparse u =
     (case u of None \<Rightarrow> None
      | Some s \<Rightarrow>
          if s = [] then None
          else (case urlparse s of None \<Rightarrow> None
                | Some (scheme, netloc) \<Rightarrow>
                    if scheme = [] \<or> netloc = [] then None
                    else Some (scheme @ ''://'' @ netloc)))"

definition percent :: "nat \<Rightarrow> string" where
  \<comment> \<open>a byte as \<open>%XX\<close>\<close>
  "percent b = [CHR ''%'', ''0123456789ABCDEF'' ! (b div 16), ''0123456789ABCDEF'' ! (b mod 16)]"

definition unreserved :: "char \<Rightarrow> bool" where
  \<comment> \<open>what \<open>quote\<close> never encodes: ASCII letters and digits and \<open>_.-~\<close>\<close>
  "unreserved c \<longleftrightarrow>
     (let n = (of_char c :: nat)
      in (48 \<le> n \<and> n \<le> 57) \<or> (65 \<le> n \<and> n \<le> 90) \<or> (97 \<le> n \<and> n \<le> 122)
         \<or> c \<in> set ''_.-~'')"

definition quote :: "string \<Rightarrow> string \<Rightarrow> string" where
  \<comment> \<open>\<open>urllib.parse.quote(s, safe)\<close>: the bytes of the UTF-8 encoding, two for a code point
      from 128 on, each encoded unless it is unreserved or safe\<close>
  "quote s safe =
     concat (map (\<lambda>c. let n = (of_char c :: nat)
                       in if n < 128 then (if unreserved c \<or> c \<in> set safe then [c] else percent n)
                          else percent (192 + n div 64) @ percent (128 + n mod 64)) s)"

definition FAVICON_TMPL :: "string \<Rightarrow> string" where
  \<comment> \<open>the template, as a function of its field \<open>url\<close>\<close>
  "FAVICON_TMPL u =
     ''https://t0.gstatic.com/faviconV2?client=SOCIAL&type=FAVICON''
     @ ''&fallback_opts=TYPE,SIZE,URL&url='' @ u @ ''&size=128''"

definition favicon_url :: "string option \<Rightarrow> string option" where
  "favicon_url site =
     (case site of None \<Rightarrow> None
      | Some u \<Rightarrow> if u = [] then None else Some (FAVICON_TMPL (quote u '':/'')))"

section \<open>The two source parsers\<close>

text \<open>
  Each parser fetches pages, searches them with fixed patterns and builds one \<open>Job\<close> per
  page. The model starts where the page has been searched: the records below hold the
  local variables of the loop body (the groups of the patterns that matched, \<open>None\<close> for a
  pattern that did not), and \<open>python_job\<close> and \<open>bwd_job\<close> are the rest of the loop body,
  up to the posting appended to \<open>jobs\<close>.
\<close>

definition por :: "'a list option \<Rightarrow> 'a list option \<Rightarrow> 'a list option" where
  \<comment> \<open>Python's \<open>a or b\<close> on values that are \<open>None\<close>, a text or a list\<close>
  "por a b = (if truthy a then a else b)"

definition after_first :: "char \<Rightarrow> string \<Rightarrow> string" where
  \<comment> \<open>\<open>s.split(sep, 1)[1]\<close> for a text that contains \<open>sep\<close>\<close>
  "after_first sep s = tl (dropWhile (\<lambda>c. c \<noteq> sep) s)"

record python_page =
  p_id :: string
  p_title :: string
  p_desc :: string
  p_url :: string
  p_pub_iso :: "string option"
  p_location :: "string option"
  p_posted :: "string option"
  p_categories :: "string list"
  p_web_link :: "string option"
  p_apply_link :: "string option"
  p_full_html :: string

definition python_job ::
  "(string \<Rightarrow> string) \<Rightarrow> (string \<Rightarrow> (string \<times> string) option) \<Rightarrow> python_page \<Rightarrow> Job" where
  "python_job unescape urlparse pg =
     (let full_text = (if p_full_html pg \<noteq> [] then strip_tags unescape (p_full_html pg)
                       else strip_tags unescape (p_desc pg));
          categories' = filter (\<lambda>v. v \<noteq> []) (map (strip_tags unescape) (p_categories pg));
          company' = (if CHR '','' \<in> set (p_title pg)
                     then Some (strip (after_first CHR '','' (p_title pg))) else None);
          apply_url' = map_option unescape (p_apply_link pg);
          company_url' = canonical_site_url urlparse
                           (case p_web_link pg of Some w \<Rightarrow> Some (unescape w) | None \<Rightarrow> apply_url')
      in \<lparr>job_id = p_id pg,
          title = p_title pg,
          company = company',
          url = p_url pg,
          source = ''python.org'',
          location = map_option (strip_tags unescape) (p_location pg),
          date_posted = (case p_posted pg of Some d \<Rightarrow> Some (strip d) | None \<Rightarrow> p_pub_iso pg),
          salary = parse_salary full_text,
          employment_type = parse_employment full_text,
          skills = Some (skills_from_text full_text),
          categories = (if categories' = [] then None else Some categories'),
          summary = Some (take 500 full_text),
          full_offer_text = Some full_text,
          full_offer_html = (if p_full_html pg = [] then None else Some (p_full_html pg)),
          apply_url = apply_url',
          company_url = company_url',
          image_url = favicon_url company_url',
          dedupe_key = Some (key_for (Some (p_title pg)) company')\<rparr>)"

text \<open>
  The structured-data block \<open>ld\<close>, read as the job-posting vocabulary has it: \<open>url\<close>,
  \<open>datePosted\<close> and \<open>employmentType\<close> are texts, \<open>hiringOrganization\<close> and \<open>jobLocation\<close> are
  objects with a text \<open>name\<close> and \<open>address\<close>, or values of another kind, which the
  \<open>isinstance\<close> test rejects. An entry that is missing is \<open>None\<close>; a block that is missing
  or does not parse is the empty block.
\<close>

datatype ld_node = LdOther | LdDict "string option"

record ld_block =
  ld_url :: "string option"
  ld_hiringOrganization :: "ld_node option"
  ld_jobLocation :: "ld_node option"
  ld_datePosted :: "string option"
  ld_employmentType :: "string option"

definition ld_entry :: "ld_node option \<Rightarrow> string option" where
  \<comment> \<open>\<open>(ld.get(k, {}) or {}).get(e) if isinstance(ld.get(k, {}), dict) else None\<close>\<close>
  "ld_entry node = (case node of Some (LdDict e) \<Rightarrow> e | _ \<Rightarrow> None)"

record bwd_page =
  b_id :: string
  b_url :: string
  b_h1 :: "string option"
  b_block :: "string option"
  b_location :: "string option"
  b_salary :: "string option"
  b_posted :: "string option"
  b_apply :: "string option"
  b_ld :: ld_block

definition bwd_job ::
  "(string \<Rightarrow> string) \<Rightarrow> (string \<Rightarrow> (string \<times> string) option) \<Rightarrow> bwd_page \<Rightarrow> Job" where
  "bwd_job unescape urlparse pg =
     (let title' = (case b_h1 pg of Some h \<Rightarrow> strip_tags unescape h | None \<Rightarrow> []);
          company0 = (if CHR ''@'' \<in> set title'
                      then Some (strip (after_first CHR ''@'' title')) else None);
          full_html = (case b_block pg of Some b \<Rightarrow> b | None \<Rightarrow> []);
          full_text = strip_tags unescape full_html;
          ld = b_ld pg;
          apply_url' = por (ld_url ld) (map_option unescape (b_apply pg));
          company_url' = canonical_site_url urlparse apply_url';
          company' = por (ld_entry (ld_hiringOrganization ld)) company0
      in \<lparr>job_id = b_id pg,
          title = title',
          company = company',
          url = b_url pg,
          source = ''builtwithdjango.com'',
          location = (case b_location pg of Some l \<Rightarrow> Some (strip_tags unescape l)
                      | None \<Rightarrow> ld_entry (ld_jobLocation ld)),
          date_posted = por (ld_datePosted ld) (map_option (strip_tags unescape) (b_posted pg)),
          salary = (case b_salary pg of Some s \<Rightarrow> parse_salary (strip_tags unescape s)
                    | None \<Rightarrow> None),
          employment_type = por (ld_employmentType ld) (parse_employment full_text),
          skills = Some (skills_from_text (title' @ [CHR 0x0A] @ full_text)),
          categories = Some [''Django Job Board''],
          summary = (if full_text \<noteq> [] then Some (take 500 full_text) else None),
          full_offer_text = Some full_text,
          full_offer_html = Some full_html,
          apply_url = apply_url',
          company_url = company_url',
          image_url = favicon_url company_url',
          dedupe_key = Some (key_for (Some title') company')\<rparr>)"

section \<open>Publication date of a feed entry\<close>

text \<open>
  A \<open>datetime\<close> is its calendar fields, left abstract, and its \<open>tzinfo\<close>: \<open>None\<close> for a naive
  value, else the offset from UTC in minutes. The library is a parameter: the two parsers
  \<open>parsedate_to_datetime\<close> and \<open>datetime.fromisoformat\<close>, with \<open>None\<close> where they raise, the
  clock read by \<open>datetime.now\<close>, and \<open>format_datetime\<close>.
\<close>

record 'a datetime =
  calendar :: 'a
  tzinfo :: "int option"

definition now_utc :: "'a \<Rightarrow> 'a datetime" where
  \<comment> \<open>\<open>datetime.now(timezone.utc)\<close> when the clock shows \<open>clock\<close>\<close>
  "now_utc clock = \<lparr>calendar = clock, tzinfo = Some 0\<rparr>"

definition rendered :: "(string \<Rightarrow> 'a datetime option) \<Rightarrow> (string \<Rightarrow> 'a datetime option) \<Rightarrow> 'a
    \<Rightarrow> string option \<Rightarrow> 'a datetime" where
  \<comment> \<open>the value \<open>as_rfc2822\<close> hands to \<open>format_datetime\<close>\<close>
  "rendered parsedate_to_datetime fromisoformat clock v =
     (case v of None \<Rightarrow> now_utc clock
      | Some s \<Rightarrow>
          if s = [] then now_utc clock
          else (let parsed = (case parsedate_to_datetime s of Some d \<Rightarrow> d
                              | None \<Rightarrow> (case fromisoformat s of Some d \<Rightarrow> d
                                         | None \<Rightarrow> now_utc clock))
                in if tzinfo parsed = None then parsed\<lparr>tzinfo := Some 0\<rparr> else parsed))"

definition as_rfc2822 :: "(string \<Rightarrow> 'a datetime option) \<Rightarrow> (string \<Rightarrow> 'a datetime option) \<Rightarrow> 'a
    \<Rightarrow> ('a datetime \<Rightarrow> string) \<Rightarrow> string option \<Rightarrow> string" where
  "as_rfc2822 parsedate_to_datetime fromisoformat clock format_datetime v =
     format_datetime (rendered parsedate_to_datetime fromisoformat clock v)"

section \<open>Concrete postings and pages\<close>

text \<open>
  Two postings of one job, as in the unit test of the merger, with shorter texts: a sparse
  one from the feed source and a rich one from the listing site.
\<close>

definition sparse :: Job where
  "sparse =
     \<lparr>job_id = ''1'', title = ''Dev'', company = Some ''Acme'',
      url = ''https://example.com/1'', source = ''python.org'', location = None,
      date_posted = None, salary = None, employment_type = None, skills = None,
      categories = None, summary = None, full_offer_text = Some ''short'',
      full_offer_html = None, apply_url = None, company_url = None, image_url = None,
      dedupe_key = None\<rparr>"

definition rich :: Job where
  "rich =
     \<lparr>job_id = ''2'', title = ''Dev @ Acme'', company = Some ''Acme'',
      url = ''https://example.com/2'', source = ''builtwithdjango.com'',
      location = Some ''Remote'', date_posted = None, salary = None, employment_type = None,
      skills = Some [''Django''], categories = None, summary = None,
      full_offer_text = Some ''long long text'', full_offer_html = None,
      apply_url = Some ''https://apply.example.com/job'',
      company_url = Some ''https://apply.example.com'',
      image_url = favicon_url (Some ''https://apply.example.com''),
      dedupe_key = None\<rparr>"

text \<open>A detail page of the listing site whose markup and structured data both give every field.\<close>

definition both_page :: bwd_page where
  "both_page =
     \<lparr>b_id = ''django-dev'', b_url = ''https://builtwithdjango.com/jobs/7/django-dev'',
      b_h1 = Some ''Django Dev @ Acme'', b_block = Some ''<p>Full-time role</p>'',
      b_location = Some ''Remote'', b_salary = None, b_posted = Some ''Jan. 5, 2024'',
      b_apply = Some ''https://markup.example.com/apply'',
      b_ld = \<lparr>ld_url = Some ''https://ld.example.com/job'',
               ld_hiringOrganization = Some (LdDict (Some ''Acme Corp'')),
               ld_jobLocation = Some (LdDict (Some ''Berlin'')),
               ld_datePosted = Some ''2024-01-05'',
               ld_employmentType = Some ''CONTRACTOR''\<rparr>\<rparr>"

definition toy_urlparse :: "string \<Rightarrow> (string \<times> string) option" where
  \<comment> \<open>a stand-in for \<open>urlparse\<close> on the URLs of \<open>both_page\<close>\<close>
  "toy_urlparse u =
     (if take 8 u = ''https://''
      then Some (''https'', takeWhile (\<lambda>c. c \<noteq> CHR ''/'') (drop 8 u)) else None)"

text \<open>A detail page of the feed source with a company website link.\<close>

definition feed_page :: python_page where
  "feed_page =
     \<lparr>p_id = ''7421'', p_title = ''Senior Django Developer, Acme'',
      p_desc = ''Django role'', p_url = ''https://www.python.org/jobs/7421/'',
      p_pub_iso = Some ''2024-01-05T00:00:00+00:00'', p_location = Some ''Remote'',
      p_posted = None, p_categories = [''Web''],
      p_web_link = Some ''https://acme.example.com/about'',
      p_apply_link = Some ''mailto:jobs@acme.example.com'',
      p_full_html = ''<div><p>Salary: $120,000 - $150,000</p>''\<rparr>"

section \<open>Notions used in the statements and proofs\<close>

definition job_key :: "Job \<Rightarrow> string" where
  \<comment> \<open>the key \<open>dedupe\<close> computes for a posting\<close>
  "job_key job = key_for (Some (title job)) (company job)"

definition mark :: "Job \<Rightarrow> Job" where
  \<comment> \<open>the posting after \<open>job.dedupe_key = key\<close>\<close>
  "mark job = job\<lparr>dedupe_key := Some (job_key job)\<rparr>"

definition champion :: "Job \<Rightarrow> Job \<Rightarrow> Job" where
  \<comment> \<open>one round of the loop within a group: the entry of \<open>by_key\<close> after \<open>job\<close> has been seen\<close>
  "champion existing job = (if supersedes job existing then job else existing)"

definition outranks :: "Job \<Rightarrow> nat \<Rightarrow> Job \<Rightarrow> nat \<Rightarrow> bool" where
  \<comment> \<open>posting \<open>a\<close>, seen at place \<open>i\<close>, is kept against posting \<open>b\<close>, seen at place \<open>j\<close>:
      higher score, or equal score and longer text, or equal in both and not seen later\<close>
  "outranks a i b j \<longleftrightarrow>
     score b < score a
     \<or> (score b = score a
        \<and> (offer_len b < offer_len a \<or> (offer_len b = offer_len a \<and> i \<le> j)))"

definition by_key_inv :: "(string \<times> Job) list \<Rightarrow> bool" where
  \<comment> \<open>what holds of \<open>by_key\<close> throughout the loop\<close>
  "by_key_inv d \<longleftrightarrow>
     distinct (map fst d) \<and> (\<forall>(k, e)\<in>set d. job_key e = k \<and> dedupe_key e = Some k)"

section \<open>Properties of the text functions and of the key\<close>

lemma isspace_lower [simp]: "isspace (lower_char c) = isspace c"
  unfolding isspace_def lower_char_def Let_def
  by (auto simp: )

lemma rstrip_Nil_iff: "rstrip s = [] \<longleftrightarrow> (\<forall>c\<in>set s. isspace c)"
  by (induction s) auto

lemma lstrip_Nil_iff: "lstrip s = [] \<longleftrightarrow> (\<forall>c\<in>set s. isspace c)"
  by (auto simp: lstrip_def dropWhile_eq_Nil_conv)

lemma rstrip_lower: "rstrip (lower s) = lower (rstrip s)"
  by (induction s) (auto simp: lower_def)

lemma lstrip_lower: "lstrip (lower s) = lower (lstrip s)"
  by (induction s) (auto simp: lower_def lstrip_def)

lemma strip_lower: "strip (lower s) = lower (strip s)"
  by (simp add: strip_def rstrip_lower lstrip_lower)

lemma lstrip_all_space: "\<forall>c\<in>set s. isspace c \<Longrightarrow> lstrip s = []"
  by (simp add: lstrip_Nil_iff)

lemma rstrip_all_space: "\<forall>c\<in>set s. isspace c \<Longrightarrow> rstrip s = []"
  by (simp add: rstrip_Nil_iff)

lemma lstrip_Cons: "lstrip (c # cs) = (if isspace c then lstrip cs else c # cs)"
  by (simp add: lstrip_def)

lemma set_lstrip: "set (lstrip s) \<subseteq> set s"
  unfolding lstrip_def by (rule set_dropWhileD [THEN subsetI])

lemma lstrip_rstrip: "lstrip (rstrip s) = rstrip (lstrip s)"
proof (induction s)
  case Nil
  show ?case by (simp add: lstrip_def)
next
  case (Cons c cs)
  show ?case
  proof (cases "\<forall>x\<in>set cs. isspace x")
    case True
    have "\<forall>x\<in>set (lstrip cs). isspace x" using True set_lstrip by blast
    then show ?thesis using True
      by (simp add: lstrip_Cons rstrip_all_space lstrip_all_space)
  next
    case False
    then have "rstrip cs \<noteq> []" by (simp add: rstrip_Nil_iff)
    then show ?thesis using Cons by (simp add: lstrip_Cons)
  qed
qed

lemma rstrip_idem [simp]: "rstrip (rstrip s) = rstrip s"
  by (induction s) auto

lemma lstrip_idem [simp]: "lstrip (lstrip s) = lstrip s"
  by (simp add: lstrip_def)

lemma strip_idem [simp]: "strip (strip s) = strip s"
  by (simp add: strip_def lstrip_rstrip)

lemma strip_lstrip [simp]: "strip (lstrip s) = strip s"
  by (simp add: strip_def lstrip_rstrip)

lemma strip_rstrip [simp]: "strip (rstrip s) = strip s"
  by (simp add: strip_def)

lemma rstrip_append_space: "isspace c \<Longrightarrow> rstrip (s @ [c]) = rstrip s"
  by (induction s) auto

lemma strip_append_space: "isspace c \<Longrightarrow> strip (s @ [c]) = strip s"
  by (simp add: strip_def rstrip_append_space)

lemma rstrip_takeWhile:
  "\<exists>x\<in>set s. \<not> P x \<and> \<not> isspace x \<Longrightarrow> takeWhile P (rstrip s) = takeWhile P s"
  by (induction s) (auto simp: rstrip_Nil_iff)

lemma lstrip_takeWhile:
  "(\<And>x. isspace x \<Longrightarrow> P x) \<Longrightarrow> takeWhile P (lstrip s) = lstrip (takeWhile P s)"
  by (induction s) (auto simp: lstrip_def)

lemma strip_takeWhile:
  assumes "\<exists>x\<in>set s. \<not> P x \<and> \<not> isspace x" and "\<And>x. isspace x \<Longrightarrow> P x"
  shows "takeWhile P (strip s) = lstrip (takeWhile P s)"
  using assms by (simp add: strip_def lstrip_takeWhile rstrip_takeWhile)

lemma set_rstrip_nonspace: "\<not> isspace x \<Longrightarrow> x \<in> set (rstrip s) \<longleftrightarrow> x \<in> set s"
  by (induction s) (auto simp: rstrip_Nil_iff)

lemma set_lstrip_nonspace: "\<not> isspace x \<Longrightarrow> x \<in> set (lstrip s) \<longleftrightarrow> x \<in> set s"
  by (induction s) (auto simp: lstrip_def)

lemma set_strip_nonspace: "\<not> isspace x \<Longrightarrow> x \<in> set (strip s) \<longleftrightarrow> x \<in> set s"
  by (simp add: strip_def set_lstrip_nonspace set_rstrip_nonspace)

lemma sep_not_space [simp]: "\<not> isspace CHR ''@''" "\<not> isspace CHR '',''" "isspace CHR '' ''"
  by (simp_all add: isspace_def)

lemma norm_str_Nil [simp]: "norm_str [] = []"
  by (simp add: norm_str_def strip_def lstrip_def lower_def)

lemma norm_Some: "norm (Some s) = norm_str s"
  by (simp add: norm_def)

lemma norm_str_strip: "norm_str (strip s) = norm_str s"
  by (simp add: norm_str_def strip_lower [symmetric])

lemma norm_str_lstrip: "norm_str (lstrip s) = norm_str s"
  by (simp add: norm_str_def lstrip_lower [symmetric])

lemma norm_str_append_space: "isspace c \<Longrightarrow> norm_str (s @ [c]) = norm_str s"
  by (simp add: norm_str_def lower_def strip_append_space)

lemma takeWhile_twice:
  "takeWhile P (takeWhile Q s) = takeWhile (\<lambda>x. Q x \<and> P x) s"
  by (induction s) auto

lemma takeWhile_absent:
  "\<forall>x\<in>set (takeWhile Q s). P x \<Longrightarrow> takeWhile Q s = takeWhile (\<lambda>x. Q x \<and> P x) s"
  by (induction s) auto

lemma norm_raw_title:
  "norm_str (raw_title t) = norm_str (takeWhile (\<lambda>c. c \<noteq> CHR ''@'' \<and> c \<noteq> CHR '','') (strip (lower (case t of None \<Rightarrow> [] | Some x \<Rightarrow> x))))"
  (is "_ = norm_str (takeWhile ?N ?t0)")
proof (cases "CHR ''@'' \<in> set ?t0")
  case at: True
  let ?A = "takeWhile (\<lambda>c. c \<noteq> CHR ''@'') ?t0"
  show ?thesis
  proof (cases "CHR '','' \<in> set ?A")
    case True
    then have "takeWhile (\<lambda>c. c \<noteq> CHR '','') (strip ?A) = lstrip (takeWhile (\<lambda>c. c \<noteq> CHR '','') ?A)"
      by (intro strip_takeWhile) auto
    then show ?thesis using at True
      by (simp add: raw_title_def Let_def split_first_def set_strip_nonspace
            norm_str_strip norm_str_lstrip takeWhile_twice)
  next
    case False
    then have "?A = takeWhile ?N ?t0"
      by (intro takeWhile_absent) auto
    then show ?thesis using at False
      by (simp add: raw_title_def Let_def split_first_def set_strip_nonspace norm_str_strip)
  qed
next
  case noat: False
  show ?thesis
  proof (cases "CHR '','' \<in> set ?t0")
    case True
    have "takeWhile (\<lambda>c. c \<noteq> CHR '','') ?t0 = takeWhile ?N ?t0"
      using noat by (intro takeWhile_cong) auto
    then show ?thesis using noat True
      by (simp add: raw_title_def Let_def split_first_def norm_str_strip)
  next
    case False
    have eq: "takeWhile ?N ?t0 = ?t0"
      using noat False by (auto simp: takeWhile_eq_all_conv)
    have r: "raw_title t = ?t0"
      using noat False by (simp add: raw_title_def Let_def)
    show ?thesis by (simp only: r eq)
  qed
qed

lemma key_for_prefix:
  "key_for t c =
     norm_str (takeWhile (\<lambda>x. x \<noteq> CHR ''@'' \<and> x \<noteq> CHR '','')
                 (lower (case t of None \<Rightarrow> [] | Some x \<Rightarrow> x))) @ ''|'' @ norm c"
  (is "_ = norm_str (takeWhile ?N ?l) @ _ @ _")
proof (cases "\<forall>x\<in>set ?l. ?N x")
  case True
  then have "\<forall>x\<in>set (strip ?l). ?N x"
    by (metis set_strip_nonspace sep_not_space(1) sep_not_space(2))
  then have eq: "takeWhile ?N (strip ?l) = strip ?l" "takeWhile ?N ?l = ?l"
    using True by (auto simp: takeWhile_eq_all_conv)
  show ?thesis
    by (simp only: key_for_def norm_Some norm_raw_title eq norm_str_strip)
next
  case False
  then have "\<exists>x\<in>set ?l. \<not> ?N x \<and> \<not> isspace x"
    by (metis sep_not_space(1) sep_not_space(2))
  then have "takeWhile ?N (strip ?l) = lstrip (takeWhile ?N ?l)"
    by (intro strip_takeWhile) auto
  then show ?thesis
    by (simp add: key_for_def norm_Some norm_raw_title norm_str_lstrip)
qed

lemma lower_append: "lower (a @ b) = lower a @ lower b"
  by (simp add: lower_def)

lemma lower_Cons: "lower (x # xs) = lower_char x # lower xs"
  by (simp add: lower_def)

lemma lower_char_sep:
  "lower_char CHR '','' = CHR '',''" "lower_char CHR ''@'' = CHR ''@''"
  "lower_char CHR '' '' = CHR '' ''"
  by (simp_all add: lower_char_def)

text \<open>
  Claim C2: the key does not depend on whether the company follows the role after a comma or after an at sign: for all texts \<open>r\<close> and \<open>c\<close>, the title \<open>r, c\<close> and the title \<open>r @ c\<close> give the same key with the company \<open>c\<close>.
\<close>

theorem key_for_separator_invariant:
  "key_for (Some (r @ '', '' @ c)) (Some c) = key_for (Some (r @ '' @ '' @ c)) (Some c)"
proof -
  let ?N = "\<lambda>x. x \<noteq> CHR ''@'' \<and> x \<noteq> CHR '',''"
  have comma: "takeWhile ?N (lower r @ '', '' @ lower c)
      = (if \<forall>x\<in>set (lower r). ?N x then lower r else takeWhile ?N (lower r))"
    by (simp add: takeWhile_append)
  have at: "takeWhile ?N (lower r @ '' @ '' @ lower c)
      = (if \<forall>x\<in>set (lower r). ?N x then lower r @ '' '' else takeWhile ?N (lower r))"
    by (simp add: takeWhile_append)
  have "norm_str (lower r @ '' '') = norm_str (lower r)"
    by (rule norm_str_append_space) simp
  then have "norm_str (takeWhile ?N (lower r @ '', '' @ lower c))
      = norm_str (takeWhile ?N (lower r @ '' @ '' @ lower c))"
    unfolding comma at by simp
  then show ?thesis
    by (simp add: key_for_prefix lower_append lower_Cons lower_char_sep)
qed

theorem key_for_separator_invariant_witness:
  "key_for (Some (''Dev'' @ '', '' @ ''Acme'')) (Some ''Acme'')
     = key_for (Some (''Dev'' @ '' @ '' @ ''Acme'')) (Some ''Acme'')
   \<and> key_for (Some (''Dev'' @ '' @ '' @ ''Acme'')) (Some ''Acme'') = ''dev|acme''"
proof -
  have "key_for (Some (''Dev'' @ '' @ '' @ ''Acme'')) (Some ''Acme'') = ''dev|acme''"
    by code_simp
  then show ?thesis
    using key_for_separator_invariant [of "''Dev''" "''Acme''"] by simp
qed

lemma set_rstrip: "set (rstrip s) \<subseteq> set s"
  by (induction s) auto

lemma set_strip: "set (strip s) \<subseteq> set s"
  unfolding strip_def using set_lstrip set_rstrip by blast

lemma set_sub_runs:
  "set (sub_runs cls rep s) \<subseteq> {c \<in> set s. \<not> cls c} \<union> set rep"
proof (induction cls rep s rule: sub_runs.induct)
  case (1 cls rep)
  show ?case by simp
next
  case (2 cls rep c cs)
  show ?case
  proof (cases "cls c")
    case True
    have "set (dropWhile cls cs) \<subseteq> set cs" by (auto dest: set_dropWhileD)
    then show ?thesis using 2(1) [OF True] True by auto
  next
    case False
    then show ?thesis using 2(2) [OF False] by auto
  qed
qed

lemma single_spaced_Cons:
  "single_spaced (c # r) \<longleftrightarrow> (c = CHR '' '' \<longrightarrow> r = [] \<or> hd r \<noteq> CHR '' '') \<and> single_spaced r"
  by (cases r) auto

lemma sub_runs_dropWhile_head:
  "sub_runs cls rep (dropWhile cls cs) = []
   \<or> (\<exists>x xs. sub_runs cls rep (dropWhile cls cs) = x # xs \<and> \<not> cls x)"
proof (cases "dropWhile cls cs")
  case Nil
  show ?thesis unfolding Nil by simp
next
  case (Cons x xs)
  then have "\<not> cls x" using hd_dropWhile [of cls cs] by auto
  then show ?thesis unfolding Cons by simp
qed

lemma single_spaced_sub_runs:
  "rep = '' '' \<Longrightarrow> cls CHR '' '' \<Longrightarrow> single_spaced (sub_runs cls rep s)"
proof (induction cls rep s rule: sub_runs.induct)
  case (1 cls rep)
  show ?case by simp
next
  case (2 cls rep c cs)
  show ?case
  proof (cases "cls c")
    case True
    from sub_runs_dropWhile_head [of cls rep cs] 2(1) [OF True 2(3) 2(4)] True 2(3) 2(4)
    show ?thesis by (auto simp: single_spaced_Cons)
  next
    case False
    then have "c \<noteq> CHR '' ''" using 2(4) by auto
    then show ?thesis using 2(2) [OF False 2(3) 2(4)] False
      by (simp add: single_spaced_Cons)
  qed
qed

lemma single_spaced_append_left: "single_spaced (a @ b) \<Longrightarrow> single_spaced a"
  by (induction a rule: single_spaced.induct) auto

lemma single_spaced_tl: "single_spaced (c # cs) \<Longrightarrow> single_spaced cs"
  by (cases cs) auto

lemma single_spaced_dropWhile: "single_spaced s \<Longrightarrow> single_spaced (dropWhile P s)"
  by (induction s) (auto dest: single_spaced_tl)

lemma rstrip_prefix: "\<exists>u. s = rstrip s @ u"
  by (induction s) auto

lemma single_spaced_rstrip: "single_spaced s \<Longrightarrow> single_spaced (rstrip s)"
  using rstrip_prefix [of s] single_spaced_append_left by metis

lemma single_spaced_strip: "single_spaced s \<Longrightarrow> single_spaced (strip s)"
  by (simp add: strip_def lstrip_def single_spaced_dropWhile single_spaced_rstrip)

lemma key_fragment_norm_str: "key_fragment (norm_str s)"
proof -
  let ?v2 = "sub_runs (\<lambda>c. \<not> is_key_char c) '' '' (strip (lower s))"
  have "set ?v2 \<subseteq> {c. is_key_char c} \<union> {CHR '' ''}"
    using set_sub_runs [of "\<lambda>c. \<not> is_key_char c" "'' ''" "strip (lower s)"] by auto
  moreover have "set (sub_runs isspace '' '' ?v2) \<subseteq> set ?v2 \<union> {CHR '' ''}"
    using set_sub_runs [of isspace "'' ''" ?v2] by auto
  ultimately have "set (strip (sub_runs isspace '' '' ?v2)) \<subseteq> {c. is_key_char c} \<union> {CHR '' ''}"
    using set_strip [of "sub_runs isspace '' '' ?v2"] by blast
  moreover have "single_spaced (strip (sub_runs isspace '' '' ?v2))"
    by (intro single_spaced_strip single_spaced_sub_runs) simp_all
  ultimately show ?thesis
    by (auto simp: key_fragment_def norm_str_def Let_def list_all_iff)
qed

lemma key_fragment_norm: "key_fragment (norm v)"
  using key_fragment_norm_str by (auto simp: norm_def key_fragment_def split: option.splits)

lemma key_fragment_no_bar: "key_fragment s \<Longrightarrow> CHR ''|'' \<notin> set s"
  by (auto simp: key_fragment_def list_all_iff is_key_char_def isdigit_def)

lemma raw_title_empty [simp]: "raw_title None = []" "raw_title (Some []) = []"
  by (simp_all add: raw_title_def strip_def lstrip_def lower_def split_first_def)

text \<open>
  Claim C10: \<open>key_for\<close> returns a key for every title and company, absent and empty ones included, where the key is the single bar; every key is two fragments joined by a bar, and a fragment holds only characters of \<open>[a-z0-9]\<close> and single spaces, so no bar.
\<close>

theorem key_for_total:
  "key_for None None = ''|'' \<and> key_for None (Some []) = ''|''
   \<and> key_for (Some []) None = ''|'' \<and> key_for (Some []) (Some []) = ''|''
   \<and> (\<exists>a b. key_for t c = a @ ''|'' @ b \<and> key_fragment a \<and> key_fragment b
            \<and> CHR ''|'' \<notin> set a \<and> CHR ''|'' \<notin> set b)"
proof -
  have "key_fragment (norm (Some (raw_title t)))" "key_fragment (norm c)"
    by (rule key_fragment_norm)+
  then have "\<exists>a b. key_for t c = a @ ''|'' @ b \<and> key_fragment a \<and> key_fragment b
            \<and> CHR ''|'' \<notin> set a \<and> CHR ''|'' \<notin> set b"
    unfolding key_for_def using key_fragment_no_bar by blast
  then show ?thesis
    by (simp add: key_for_def norm_def)
qed

theorem key_for_total_witness:
  "\<exists>a b. key_for (Some ''Senior Django Developer @ Acme'') (Some ''Acme'') = a @ ''|'' @ b
     \<and> key_fragment a \<and> key_fragment b \<and> CHR ''|'' \<notin> set a \<and> CHR ''|'' \<notin> set b"
  using key_for_total [of "Some ''Senior Django Developer @ Acme''" "Some ''Acme''"] by blast

text \<open>
  The title \<open>a, b @ c\<close> contains an at sign and is still split at its comma: the key has
  the role \<open>a\<close>, where the key of the specification has the role \<open>a b\<close>.
\<close>

theorem key_for_else_if_counterexample:
  "raw_title (Some ''a, b @ c'') = ''a''
   \<and> key_for (Some ''a, b @ c'') (Some ''c'') = ''a|c''
   \<and> computeKey_spec (Some ''a, b @ c'') (Some ''c'') = ''a b|c''"
  by code_simp

text \<open>
  Claim C3, as amended: the role part of the key is the title, lower-cased and stripped, up to its first at sign or comma, whichever comes first: the split at the comma is made after the split at the at sign, not instead of it. Where no comma stands before the first at sign, the key is the one the specification describes.
\<close>

theorem key_for_role:
  "key_for t c =
     norm (Some (takeWhile (\<lambda>x. x \<noteq> CHR ''@'' \<and> x \<noteq> CHR '','')
                   (strip (lower (case t of None \<Rightarrow> [] | Some x \<Rightarrow> x))))) @ ''|'' @ norm c
   \<and> (CHR '','' \<notin> set (split_first CHR ''@'' (strip (lower (case t of None \<Rightarrow> [] | Some x \<Rightarrow> x))))
        \<longrightarrow> key_for t c = computeKey_spec t c)"
proof -
  let ?t0 = "strip (lower (case t of None \<Rightarrow> [] | Some x \<Rightarrow> x))"
  have 1: "key_for t c = norm (Some (takeWhile (\<lambda>x. x \<noteq> CHR ''@'' \<and> x \<noteq> CHR '','') ?t0)) @ ''|'' @ norm c"
    by (simp add: key_for_def norm_Some norm_raw_title)
  have 2: "key_for t c = computeKey_spec t c"
    if no: "CHR '','' \<notin> set (split_first CHR ''@'' ?t0)"
  proof (cases "CHR ''@'' \<in> set ?t0")
    case True
    then show ?thesis using no
      by (simp add: key_for_def computeKey_spec_def raw_title_def Let_def
            set_strip_nonspace norm_Some norm_str_strip)
  next
    case False
    then have "split_first CHR ''@'' ?t0 = ?t0"
      by (auto simp: split_first_def takeWhile_eq_all_conv)
    then show ?thesis using no False
      by (simp add: key_for_def computeKey_spec_def raw_title_def Let_def)
  qed
  show ?thesis using 1 2 by blast
qed

theorem key_for_role_witness:
  "CHR '','' \<notin> set (split_first CHR ''@'' (strip (lower ''Dev @ Acme, Inc'')))
   \<and> key_for (Some ''Dev @ Acme, Inc'') (Some ''Acme'') = computeKey_spec (Some ''Dev @ Acme, Inc'') (Some ''Acme'')"
proof -
  have h: "CHR '','' \<notin> set (split_first CHR ''@'' (strip (lower ''Dev @ Acme, Inc'')))"
    by code_simp
  show ?thesis
    using h key_for_role [of "Some ''Dev @ Acme, Inc''" "Some ''Acme''", THEN conjunct2] by simp
qed

lemma score_mark [simp]: "score (j\<lparr>dedupe_key := k\<rparr>) = score j"
  by (simp add: score_def)

lemma offer_len_mark [simp]: "offer_len (j\<lparr>dedupe_key := k\<rparr>) = offer_len j"
  by (simp add: offer_len_def)

lemma supersedes_mark [simp]:
  "supersedes (a\<lparr>dedupe_key := k\<rparr>) b = supersedes a b"
  "supersedes a (b\<lparr>dedupe_key := k\<rparr>) = supersedes a b"
  by (simp_all add: supersedes_def)

lemma job_key_mark [simp]: "job_key (j\<lparr>dedupe_key := k\<rparr>) = job_key j"
  by (simp add: job_key_def)

lemma map_of_dict_set: "map_of (dict_set k v d) k' = (if k' = k then Some v else map_of d k')"
  by (induction d) auto

lemma keys_dict_set:
  "map fst (dict_set k v d) = (if k \<in> fst ` set d then map fst d else map fst d @ [k])"
  by (induction d) (force simp: image_iff)+

lemma set_dict_set: "set (dict_set k v d) \<subseteq> insert (k, v) (set d)"
  by (induction d) (auto split: if_splits)

lemma dict_set_new: "k \<notin> fst ` set d \<Longrightarrow> dict_set k v d = d @ [(k, v)]"
  by (induction d) auto

lemma dedupe_loop_Cons:
  "dedupe_loop by_key (job0 # jobs) =
     (if (case map_of by_key (job_key job0) of None \<Rightarrow> True
          | Some existing \<Rightarrow> supersedes job0 existing)
      then dedupe_loop (dict_set (job_key job0) (mark job0) by_key) jobs
      else dedupe_loop by_key jobs)"
  by (simp add: job_key_def mark_def Let_def split: option.split)

lemma lookup_dedupe_loop:
  "map_of (dedupe_loop by_key jobs) k =
     (case map_of by_key k of
        Some e \<Rightarrow> Some (foldl champion e (map mark (filter (\<lambda>j. job_key j = k) jobs)))
      | None \<Rightarrow> (case filter (\<lambda>j. job_key j = k) jobs of [] \<Rightarrow> None
                 | j # js \<Rightarrow> Some (foldl champion (mark j) (map mark js))))"
proof (induction jobs arbitrary: by_key)
  case Nil
  show ?case by (simp split: option.split)
next
  case (Cons job0 jobs)
  show ?case
    unfolding dedupe_loop_Cons
    by (auto simp: Cons map_of_dict_set champion_def mark_def split: option.split list.split)
qed

lemma inv_dict_set:
  assumes "by_key_inv d" "job_key e = k" "dedupe_key e = Some k"
  shows "by_key_inv (dict_set k e d)"
proof -
  have "distinct (map fst (dict_set k e d))"
    using assms(1) by (auto simp: by_key_inv_def keys_dict_set)
  moreover have "\<forall>(k', e')\<in>set (dict_set k e d). job_key e' = k' \<and> dedupe_key e' = Some k'"
    using assms set_dict_set [of k e d] by (auto simp: by_key_inv_def)
  ultimately show ?thesis by (simp add: by_key_inv_def)
qed

lemma inv_dedupe_loop: "by_key_inv d \<Longrightarrow> by_key_inv (dedupe_loop d jobs)"
proof (induction jobs arbitrary: d)
  case Nil
  then show ?case by simp
next
  case (Cons job0 jobs)
  have "by_key_inv (dict_set (job_key job0) (mark job0) d)"
    by (rule inv_dict_set [OF Cons.prems]) (simp_all add: mark_def)
  then show ?case
    unfolding dedupe_loop_Cons using Cons by simp
qed

lemma inv_filter:
  "by_key_inv d \<Longrightarrow> filter (\<lambda>j. job_key j = k) (map snd d) =
     (case map_of d k of None \<Rightarrow> [] | Some e \<Rightarrow> [e])"
proof (induction d)
  case Nil
  show ?case by simp
next
  case (Cons p d)
  obtain k' e' where p: "p = (k', e')" by (cases p)
  have i: "by_key_inv d" using Cons.prems by (auto simp: by_key_inv_def)
  have k': "job_key e' = k'" using Cons.prems by (auto simp: by_key_inv_def p)
  show ?case
  proof (cases "k' = k")
    case True
    then have "map_of d k = None" using Cons.prems
      by (auto simp: by_key_inv_def p map_of_eq_None_iff)
    then show ?thesis using Cons.IH [OF i] True k' by (simp add: p)
  next
    case False
    then show ?thesis using Cons.IH [OF i] k' by (simp add: p)
  qed
qed

lemma dedupe_loop_fixed: "by_key_inv (acc @ d) \<Longrightarrow> dedupe_loop acc (map snd d) = acc @ d"
proof (induction d arbitrary: acc)
  case Nil
  show ?case by simp
next
  case (Cons p d)
  obtain k e where p: "p = (k, e)" by (cases p)
  have ke: "job_key e = k" "dedupe_key e = Some k"
    using Cons.prems by (auto simp: by_key_inv_def p)
  have new: "k \<notin> fst ` set acc" using Cons.prems by (auto simp: by_key_inv_def p)
  then have none: "map_of acc k = None" by (simp add: map_of_eq_None_iff)
  have m: "mark e = e" using ke by (simp add: mark_def)
  have "by_key_inv ((acc @ [(k, e)]) @ d)" using Cons.prems by (simp add: p)
  from Cons.IH [OF this] show ?case
    unfolding p by (simp add: dedupe_loop_Cons ke none m dict_set_new [OF new] del: dedupe_loop.simps(2))
qed

lemma job_key_sparse: "job_key sparse = ''dev|acme''"
  by code_simp

lemma job_key_rich: "job_key rich = ''dev|acme''"
  by code_simp

lemma score_sparse: "score sparse = 2" "offer_len sparse = 5"
  by (simp_all add: score_def offer_len_def sparse_def truthy_def)

lemma score_rich: "score rich = 7" "offer_len rich = 14"
  by (simp_all add: score_def offer_len_def rich_def truthy_def favicon_url_def FAVICON_TMPL_def)

text \<open>
  Claim C4: merging the survivors of a merge gives the same survivors, in the same order.
\<close>

theorem dedupe_idempotent: "fst (dedupe (fst (dedupe jobs))) = fst (dedupe jobs)"
proof -
  have "by_key_inv ([] @ dedupe_loop [] jobs)"
    using inv_dedupe_loop [of "[]" jobs] by (simp add: by_key_inv_def)
  from dedupe_loop_fixed [OF this] show ?thesis
    by (simp add: dedupe_def)
qed

theorem dedupe_idempotent_witness:
  "fst (dedupe (fst (dedupe [sparse, rich, sparse]))) = fst (dedupe [sparse, rich, sparse])
   \<and> fst (dedupe [sparse, rich, sparse]) = [mark rich]"
proof -
  have "fst (dedupe [sparse, rich, sparse]) = [mark rich]"
    by (simp add: dedupe_def dedupe_loop_Cons map_of_dict_set supersedes_def mark_def
          job_key_sparse job_key_rich score_sparse score_rich del: dedupe_loop.simps(2))
  then show ?thesis using dedupe_idempotent [of "[sparse, rich, sparse]"] by simp
qed

lemma champion_index:
  "\<exists>i<Suc (length js). foldl champion cur js = (cur # js) ! i
     \<and> (\<forall>j<Suc (length js). outranks ((cur # js) ! i) i ((cur # js) ! j) j)"
proof (induction js rule: rev_induct)
  case Nil
  show ?case by (simp add: outranks_def)
next
  case (snoc x js)
  then obtain i where i: "i < Suc (length js)" "foldl champion cur js = (cur # js) ! i"
    "\<forall>j<Suc (length js). outranks ((cur # js) ! i) i ((cur # js) ! j) j" by blast
  have nth: "(cur # js @ [x]) ! j = (cur # js) ! j" if "j < Suc (length js)" for j
    using that nth_append [of "cur # js" "[x]" j] by simp
  have last: "(cur # js @ [x]) ! Suc (length js) = x"
    using nth_append_length [of "cur # js" x "[]"] by simp
  have step: "foldl champion cur (js @ [x]) = champion ((cur # js) ! i) x"
    by (simp only: foldl_append foldl.simps i(2))
  show ?case
  proof (cases "supersedes x ((cur # js) ! i)")
    case True
    have c: "foldl champion cur (js @ [x]) = (cur # js @ [x]) ! Suc (length js)"
      by (simp only: step champion_def True if_True last)
    have "\<forall>j<Suc (Suc (length js)). outranks x (Suc (length js)) ((cur # js @ [x]) ! j) j"
    proof (intro allI impI)
      fix j assume "j < Suc (Suc (length js))"
      then consider "j < Suc (length js)" | "j = Suc (length js)" by linarith
      then show "outranks x (Suc (length js)) ((cur # js @ [x]) ! j) j"
      proof cases
        case 1
        then show ?thesis using i(3) True nth [OF 1]
          by (auto simp: outranks_def supersedes_def)
      next
        case 2
        then show ?thesis using last by (simp add: outranks_def)
      qed
    qed
    then have "\<forall>j<Suc (length (js @ [x])).
        outranks ((cur # js @ [x]) ! Suc (length js)) (Suc (length js)) ((cur # js @ [x]) ! j) j"
      by (simp only: last length_append_singleton)
    then show ?thesis using c
      by (intro exI [of _ "Suc (length js)"]) simp
  next
    case False
    have c: "foldl champion cur (js @ [x]) = (cur # js @ [x]) ! i"
      by (simp only: step champion_def False if_False nth [OF i(1)])
    have "\<forall>j<Suc (Suc (length js)). outranks ((cur # js) ! i) i ((cur # js @ [x]) ! j) j"
    proof (intro allI impI)
      fix j assume "j < Suc (Suc (length js))"
      then consider "j < Suc (length js)" | "j = Suc (length js)" by linarith
      then show "outranks ((cur # js) ! i) i ((cur # js @ [x]) ! j) j"
      proof cases
        case 1
        then show ?thesis using i(3) nth [OF 1] by simp
      next
        case 2
        then show ?thesis using last False i(1)
          by (auto simp: outranks_def supersedes_def)
      qed
    qed
    then have "\<forall>j<Suc (length (js @ [x])).
        outranks ((cur # js @ [x]) ! i) i ((cur # js @ [x]) ! j) j"
      by (simp only: nth [OF i(1)] length_append_singleton)
    then show ?thesis using c i(1)
      by (intro exI [of _ i]) simp
  qed
qed

lemma champion_mark: "champion (mark a) (mark b) = mark (champion a b)"
  by (simp add: champion_def mark_def)

lemma foldl_champion_mark: "foldl champion (mark a) (map mark js) = mark (foldl champion a js)"
  by (induction js arbitrary: a) (simp_all only: list.map foldl.simps champion_mark)

lemma survivor_of_group:
  assumes "filter (\<lambda>j. job_key j = k) jobs = j0 # js"
  shows "filter (\<lambda>j. job_key j = k) (fst (dedupe jobs)) = [mark (foldl champion j0 js)]"
proof -
  have "by_key_inv (dedupe_loop [] jobs)"
    using inv_dedupe_loop [of "[]" jobs] by (simp add: by_key_inv_def)
  then have "filter (\<lambda>j. job_key j = k) (map snd (dedupe_loop [] jobs)) =
      (case map_of (dedupe_loop [] jobs) k of None \<Rightarrow> [] | Some e \<Rightarrow> [e])"
    by (rule inv_filter)
  moreover have "map_of (dedupe_loop [] jobs) k = Some (mark (foldl champion j0 js))"
    by (simp add: lookup_dedupe_loop assms foldl_champion_mark)
  ultimately show ?thesis by (simp add: dedupe_def)
qed

text \<open>
  Claim C1: among the postings of one key the survivor is the one that outranks every other: it has the higher score, or the same score and the longer text, or the same score and length and was seen first. Of two postings with the same key, the one with the strictly higher score survives in either order of input.
\<close>

theorem dedupe_survivor:
  "(filter (\<lambda>j. job_key j = k) jobs \<noteq> [] \<longrightarrow>
      (\<exists>i<length (filter (\<lambda>j. job_key j = k) jobs).
         filter (\<lambda>j. job_key j = k) (fst (dedupe jobs))
           = [mark (filter (\<lambda>j. job_key j = k) jobs ! i)]
         \<and> (\<forall>j<length (filter (\<lambda>j. job_key j = k) jobs).
               outranks (filter (\<lambda>j. job_key j = k) jobs ! i) i
                        (filter (\<lambda>j. job_key j = k) jobs ! j) j)))
   \<and> (job_key a = job_key b \<and> score b < score a \<longrightarrow>
        fst (dedupe [a, b]) = [mark a] \<and> fst (dedupe [b, a]) = [mark a])"
proof (intro conjI impI)
  assume ne: "filter (\<lambda>j. job_key j = k) jobs \<noteq> []"
  then obtain j0 js where g: "filter (\<lambda>j. job_key j = k) jobs = j0 # js"
    by (cases "filter (\<lambda>j. job_key j = k) jobs") auto
  from champion_index [of js j0] obtain i where i: "i < Suc (length js)"
    "foldl champion j0 js = (j0 # js) ! i"
    "\<forall>j<Suc (length js). outranks ((j0 # js) ! i) i ((j0 # js) ! j) j" by blast
  show "\<exists>i<length (filter (\<lambda>j. job_key j = k) jobs).
         filter (\<lambda>j. job_key j = k) (fst (dedupe jobs))
           = [mark (filter (\<lambda>j. job_key j = k) jobs ! i)]
         \<and> (\<forall>j<length (filter (\<lambda>j. job_key j = k) jobs).
               outranks (filter (\<lambda>j. job_key j = k) jobs ! i) i
                        (filter (\<lambda>j. job_key j = k) jobs ! j) j)"
    unfolding survivor_of_group [OF g] g using i
    by (intro exI [of _ i]) simp
next
  assume "job_key a = job_key b \<and> score b < score a"
  then show "fst (dedupe [a, b]) = [mark a]"
    by (simp add: dedupe_def dedupe_loop_Cons map_of_dict_set supersedes_def mark_def
        del: dedupe_loop.simps(2))
next
  assume "job_key a = job_key b \<and> score b < score a"
  then show "fst (dedupe [b, a]) = [mark a]"
    by (simp add: dedupe_def dedupe_loop_Cons map_of_dict_set supersedes_def mark_def
        del: dedupe_loop.simps(2))
qed

theorem dedupe_survivor_witness:
  "filter (\<lambda>j. job_key j = ''dev|acme'') [sparse, rich] \<noteq> []
   \<and> job_key rich = job_key sparse \<and> score sparse < score rich
   \<and> (\<exists>i<length (filter (\<lambda>j. job_key j = ''dev|acme'') [sparse, rich]).
         filter (\<lambda>j. job_key j = ''dev|acme'') (fst (dedupe [sparse, rich]))
           = [mark (filter (\<lambda>j. job_key j = ''dev|acme'') [sparse, rich] ! i)])
   \<and> fst (dedupe [rich, sparse]) = [mark rich] \<and> fst (dedupe [sparse, rich]) = [mark rich]"
proof -
  have h1: "filter (\<lambda>j. job_key j = ''dev|acme'') [sparse, rich] \<noteq> []"
    by (simp add: job_key_sparse)
  have h2: "job_key rich = job_key sparse \<and> score sparse < score rich"
    by (simp add: job_key_sparse job_key_rich score_sparse score_rich)
  show ?thesis
    using h1 h2 dedupe_survivor [of "''dev|acme''" "[sparse, rich]" rich sparse]
    by blast
qed

section \<open>Properties of the salary extractor\<close>

lemma ms_lit_ci: "ms (lit_ci kw) s = (if starts_ci kw s then [drop (length kw) s] else [])"
proof (induction kw arbitrary: s)
  case Nil
  show ?case by (simp add: starts_ci_def lower_def)
next
  case (Cons c cs)
  show ?case by (cases s) (auto simp: Cons starts_ci_def lower_def)
qed

lemma greedy_elem:
  "s1 \<in> set (greedy cls s) \<Longrightarrow> \<exists>gap. s = gap @ s1 \<and> (\<forall>c\<in>set gap. cls c)"
proof (induction cls s rule: greedy.induct)
  case (1 cls)
  then show ?case by simp
next
  case (2 cls c cs)
  show ?case
  proof (cases "s1 = c # cs")
    case True
    then show ?thesis by (intro exI [of _ "[]"]) simp
  next
    case False
    then have c: "cls c" and "s1 \<in> set (greedy cls cs)"
      using 2(2) by (auto split: if_splits)
    then obtain gap where "cs = gap @ s1" "\<forall>x\<in>set gap. cls x" using 2(1) by blast
    then show ?thesis using c by (intro exI [of _ "c # gap"]) simp
  qed
qed

lemma greedy_upto_elem:
  "s1 \<in> set (greedy_upto n cls s) \<Longrightarrow>
     \<exists>gap. s = gap @ s1 \<and> length gap \<le> n \<and> (\<forall>c\<in>set gap. cls c)"
proof (induction n cls s rule: greedy_upto.induct)
  case (1 cls s)
  then show ?case by simp
next
  case (2 n cls)
  then show ?case by simp
next
  case (3 n cls c cs)
  show ?case
  proof (cases "s1 = c # cs")
    case True
    then show ?thesis by (intro exI [of _ "[]"]) simp
  next
    case False
    then have c: "cls c" and "s1 \<in> set (greedy_upto n cls cs)"
      using 3(2) by (auto split: if_splits)
    then obtain gap where "cs = gap @ s1" "length gap \<le> n" "\<forall>x\<in>set gap. cls x"
      using 3(1) by blast
    then show ?thesis using c by (intro exI [of _ "c # gap"]) simp
  qed
qed

lemma greedy_self: "s \<in> set (greedy cls s)"
  by (cases s) auto

lemma greedy_upto_self: "s \<in> set (greedy_upto n cls s)"
  by (cases n; cases s) auto

lemma greedy_append: "\<forall>c\<in>set u. cls c \<Longrightarrow> t \<in> set (greedy cls (u @ t))"
  by (induction u) (auto simp: greedy_self)

lemma greedy_upto_append:
  "length u \<le> n \<Longrightarrow> \<forall>c\<in>set u. cls c \<Longrightarrow> t \<in> set (greedy_upto n cls (u @ t))"
proof (induction u arbitrary: n)
  case Nil
  show ?case by (simp add: greedy_upto_self)
next
  case (Cons c u)
  then obtain m where n: "n = Suc m" by (cases n) auto
  then show ?case using Cons by simp
qed

lemma ms_consumes:
  "s' \<in> set (ms r s) \<Longrightarrow> \<exists>u. s = u @ s' \<and> (\<forall>t. t \<in> set (ms r (u @ t)))"
proof (induction r arbitrary: s s')
  case Eps
  then show ?case by simp
next
  case (Chr cls)
  then obtain c where "s = c # s'" "cls c" by (cases s) (auto split: if_splits)
  then show ?case by (intro exI [of _ "[c]"]) simp
next
  case (Seq a b)
  then obtain m where m: "m \<in> set (ms a s)" "s' \<in> set (ms b m)" by auto
  from Seq.IH(1) [OF m(1)] obtain u1 where u1: "s = u1 @ m" "\<forall>t. t \<in> set (ms a (u1 @ t))" by blast
  from Seq.IH(2) [OF m(2)] obtain u2 where u2: "m = u2 @ s'" "\<forall>t. t \<in> set (ms b (u2 @ t))" by blast
  have "\<forall>t. t \<in> set (ms (Seq a b) ((u1 @ u2) @ t))"
  proof
    fix t
    have "u2 @ t \<in> set (ms a (u1 @ u2 @ t))" using u1(2) by blast
    moreover have "t \<in> set (ms b (u2 @ t))" using u2(2) by blast
    ultimately show "t \<in> set (ms (Seq a b) ((u1 @ u2) @ t))" by auto
  qed
  then show ?case using u1(1) u2(1) by (intro exI [of _ "u1 @ u2"]) simp
next
  case (Alt a b)
  then consider "s' \<in> set (ms a s)" | "s' \<in> set (ms b s)" by auto
  then show ?case
  proof cases
    case 1
    from Alt.IH(1) [OF 1] show ?thesis by auto
  next
    case 2
    from Alt.IH(2) [OF 2] show ?thesis by auto
  qed
next
  case (Opt a)
  then consider "s' \<in> set (ms a s)" | "s' = s" by auto
  then show ?case
  proof cases
    case 1
    from Opt.IH [OF 1] show ?thesis by auto
  next
    case 2
    then show ?thesis by (intro exI [of _ "[]"]) simp
  qed
next
  case (Star cls)
  then obtain u where "s = u @ s'" "\<forall>c\<in>set u. cls c" using greedy_elem by fastforce
  then show ?case using greedy_append by (intro exI [of _ u]) simp
next
  case (UpTo n cls)
  then obtain u where "s = u @ s'" "length u \<le> n" "\<forall>c\<in>set u. cls c"
    using greedy_upto_elem by fastforce
  then show ?case using greedy_upto_append by (intro exI [of _ u]) simp
qed

lemma match_here_Some:
  assumes "match_here pre grp s = Some g"
  shows "\<exists>s1 s2. s1 \<in> set (ms pre s) \<and> s2 \<in> set (ms grp s1)
           \<and> g = take (length s1 - length s2) s1"
proof -
  let ?all = "concat (map (\<lambda>s1. map (\<lambda>s2. take (length s1 - length s2) s1) (ms grp s1)) (ms pre s))"
  obtain rest where "?all = g # rest"
    using assms by (auto simp: match_here_def split: list.splits)
  then have "g \<in> set ?all" by (metis list.set_intros(1))
  then show ?thesis by auto
qed

lemma search_Some:
  "search pre grp s = Some g \<Longrightarrow> \<exists>u t. s = u @ t \<and> match_here pre grp t = Some g"
proof (induction s)
  case Nil
  then show ?case by simp
next
  case (Cons c cs)
  show ?case
  proof (cases "match_here pre grp (c # cs)")
    case None
    then have "search pre grp cs = Some g" using Cons.prems by simp
    from Cons.IH [OF this] obtain u t where "cs = u @ t" "match_here pre grp t = Some g" by blast
    then show ?thesis by (intro exI [of _ "c # u"] exI [of _ t]) simp
  next
    case (Some g')
    then have "g' = g" using Cons.prems by simp
    then show ?thesis using Some by (intro exI [of _ "[]"] exI [of _ "c # cs"]) simp
  qed
qed

lemma has_dollar_amount_append: "has_dollar_amount t \<Longrightarrow> has_dollar_amount (u @ t)"
proof (induction u)
  case Nil
  then show ?case by simp
next
  case (Cons a u)
  then have "has_dollar_amount (u @ t)" by simp
  then show ?case by (cases "u @ t") auto
qed

lemma anchored_here_keyword: "anchored_here t \<Longrightarrow> keyword_anchored t"
  by (cases t) (auto simp: anchored_here_def starts_ci_def lower_def)

lemma keyword_anchored_append: "keyword_anchored t \<Longrightarrow> keyword_anchored (u @ t)"
  by (induction u) auto

lemma number_within_gap:
  "length gap \<le> n \<Longrightarrow> \<forall>c\<in>set gap. gap_char c \<Longrightarrow> isdigit d \<Longrightarrow>
     number_within n (gap @ d # rest)"
proof (induction gap arbitrary: n)
  case Nil
  then show ?case by (cases n) auto
next
  case (Cons c gap)
  then obtain m where "n = Suc m" by (cases n) auto
  then show ?case using Cons by simp
qed

lemma ms_Seq_Chr:
  "m \<in> set (ms (Seq (Chr p) r) t) \<longleftrightarrow> (\<exists>d t'. t = d # t' \<and> p d \<and> m \<in> set (ms r t'))"
  by (cases t) auto

lemma ms_length: "s' \<in> set (ms r s) \<Longrightarrow> length s' \<le> length s"
  using ms_consumes [of s' r s] by auto

lemma keyword_amount_start:
  assumes "m \<in> set (ms keyword_amount s)"
  shows "\<exists>c r. s = c # r \<and> length m \<le> length r
     \<and> (isdigit c \<or> (c = CHR ''$'' \<and> (\<exists>d r'. r = d # r' \<and> isdigit d)))"
proof -
  let ?R = "Seq (Chr isdigit) (Seq (Star digit_or_comma) (Opt (Chr magnitude)))"
  from assms obtain t where t: "t \<in> set (ms (Opt (Chr (\<lambda>c. c = CHR ''$''))) s)" "m \<in> set (ms ?R t)"
    by (auto simp: keyword_amount_def)
  from t(2) obtain d t' where d: "t = d # t'" "isdigit d"
    "m \<in> set (ms (Seq (Star digit_or_comma) (Opt (Chr magnitude))) t')"
    unfolding ms_Seq_Chr by blast
  have len: "length m \<le> length t'" using d(3) by (rule ms_length)
  from t(1) consider "t = s" | "s = CHR ''$'' # t"
    by (cases s) (auto split: if_splits)
  then show ?thesis
  proof cases
    case 1
    then show ?thesis using d len by auto
  next
    case 2
    then show ?thesis using d len by auto
  qed
qed

lemma keyword_group_start:
  assumes "s2 \<in> set (ms keyword_group s1)"
  shows "\<exists>c r. s1 = c # r \<and> length s2 \<le> length r
     \<and> (isdigit c \<or> (c = CHR ''$'' \<and> (\<exists>d r'. r = d # r' \<and> isdigit d)))"
proof -
  from assms obtain m where m: "m \<in> set (ms keyword_amount s1)"
    "s2 \<in> set (ms (Opt (Seq range_sep keyword_amount)) m)"
    by (auto simp: keyword_group_def)
  have "length s2 \<le> length m" using m(2) by (rule ms_length)
  then show ?thesis using keyword_amount_start [OF m(1)] by fastforce
qed

lemma dollar_group_start:
  assumes "s2 \<in> set (ms dollar_group s1)"
  shows "\<exists>d r. s1 = CHR ''$'' # d # r \<and> isdigit d"
proof -
  from assms obtain m where "m \<in> set (ms dollar_amount s1)"
    by (auto simp: dollar_group_def)
  then show ?thesis
    unfolding dollar_amount_def ms_Seq_Chr by blast
qed

lemma keyword_pre_shape:
  assumes "s1 \<in> set (ms keyword_pre t)"
  shows "\<exists>n gap. (n = 6 \<and> starts_ci ''salary'' t \<or> n = 12 \<and> starts_ci ''compensation'' t)
      \<and> drop n t = gap @ s1 \<and> length gap \<le> 20 \<and> (\<forall>c\<in>set gap. gap_char c)"
proof -
  from assms obtain m where m: "m \<in> set (ms (lit_ci ''salary'') t) \<union> set (ms (lit_ci ''compensation'') t)"
    "s1 \<in> set (greedy_upto 20 gap_char m)"
    by (auto simp: keyword_pre_def)
  from greedy_upto_elem [OF m(2)] obtain gap where gap: "m = gap @ s1" "length gap \<le> 20"
    "\<forall>c\<in>set gap. gap_char c" by blast
  have len: "length ''salary'' = 6" "length ''compensation'' = 12" by simp_all
  from m(1) have "m = drop 6 t \<and> starts_ci ''salary'' t \<or> m = drop 12 t \<and> starts_ci ''compensation'' t"
    unfolding ms_lit_ci len by (auto split: if_splits)
  then show ?thesis
  proof
    assume a: "m = drop 6 t \<and> starts_ci ''salary'' t"
    then have "drop 6 t = gap @ s1" using gap(1) by simp
    then show ?thesis using a gap(2,3)
      by (intro exI [of _ 6] exI [of _ gap]) simp
  next
    assume a: "m = drop 12 t \<and> starts_ci ''compensation'' t"
    then have "drop 12 t = gap @ s1" using gap(1) by simp
    then show ?thesis using a gap(2,3)
      by (intro exI [of _ 12] exI [of _ gap]) simp
  qed
qed

lemma keyword_match_needs:
  assumes "keyword_match inp = Some g"
  shows "keyword_anchored inp \<or> has_dollar_amount inp"
proof -
  from assms obtain u t where ut: "inp = u @ t" "match_here keyword_pre keyword_group t = Some g"
    unfolding keyword_match_def using search_Some by blast
  from match_here_Some [OF ut(2)] obtain s1 s2 where s: "s1 \<in> set (ms keyword_pre t)"
    "s2 \<in> set (ms keyword_group s1)" by blast
  from keyword_pre_shape [OF s(1)] obtain n gap where
    n: "n = 6 \<and> starts_ci ''salary'' t \<or> n = 12 \<and> starts_ci ''compensation'' t"
    and gap: "drop n t = gap @ s1" "length gap \<le> 20" "\<forall>c\<in>set gap. gap_char c" by blast
  from keyword_group_start [OF s(2)] obtain c r where c: "s1 = c # r"
    "isdigit c \<or> (c = CHR ''$'' \<and> (\<exists>d r'. r = d # r' \<and> isdigit d))" by blast
  from c(2) show ?thesis
  proof
    assume "isdigit c"
    then have "number_within 20 (drop n t)"
      unfolding gap(1) c(1) using gap(2,3) by (intro number_within_gap)
    then have "anchored_here t" using n by (auto simp: anchored_here_def)
    then show ?thesis unfolding ut(1)
      by (intro disjI1 keyword_anchored_append anchored_here_keyword)
  next
    assume "c = CHR ''$'' \<and> (\<exists>d r'. r = d # r' \<and> isdigit d)"
    then have "has_dollar_amount s1" using c(1) by auto
    then have "has_dollar_amount (take n t @ gap @ s1)"
      by (intro has_dollar_amount_append)
    then have "has_dollar_amount t"
      using gap(1) append_take_drop_id [of n t] by simp
    then show ?thesis unfolding ut(1) by (intro disjI2 has_dollar_amount_append)
  qed
qed

lemma dollar_match_needs:
  assumes "dollar_match inp = Some g"
  shows "has_dollar_amount inp"
proof -
  from assms obtain u t where ut: "inp = u @ t" "match_here Eps dollar_group t = Some g"
    unfolding dollar_match_def using search_Some by blast
  from match_here_Some [OF ut(2)] obtain s2 where "s2 \<in> set (ms dollar_group t)" by auto
  from dollar_group_start [OF this] have "has_dollar_amount t" by auto
  then show ?thesis unfolding ut(1) by (rule has_dollar_amount_append)
qed

text \<open>
  Claim C5: a text with no \<open>$\<close> before a digit and no number anchored by one of the keywords has no salary; the text about the 3.1M raised has none, and the text \<open>Salary: $120,000 - $150,000\<close> has the salary \<open>$120,000 - $150,000\<close>.
\<close>

theorem parse_salary_absent:
  "(\<not> has_dollar_amount inp \<and> \<not> keyword_anchored inp \<longrightarrow> parse_salary inp = None)
   \<and> parse_salary ''Raised 3.1M and growing month-on-month'' = None
   \<and> parse_salary ''Salary: $120,000 - $150,000'' = Some ''$120,000 - $150,000''"
proof (intro conjI impI)
  assume a: "\<not> has_dollar_amount inp \<and> \<not> keyword_anchored inp"
  have "keyword_match inp = None"
    using a keyword_match_needs [of inp] by (cases "keyword_match inp") auto
  moreover have "dollar_match inp = None"
    using a dollar_match_needs [of inp] by (cases "dollar_match inp") auto
  ultimately show "parse_salary inp = None" by (simp add: parse_salary_def)
next
  show "parse_salary ''Raised 3.1M and growing month-on-month'' = None" by code_simp
next
  show "parse_salary ''Salary: $120,000 - $150,000'' = Some ''$120,000 - $150,000''" by code_simp
qed

theorem parse_salary_absent_witness:
  "\<not> has_dollar_amount ''hello, world'' \<and> \<not> keyword_anchored ''hello, world''
   \<and> parse_salary ''hello, world'' = None"
proof -
  have h: "\<not> has_dollar_amount ''hello, world'' \<and> \<not> keyword_anchored ''hello, world''"
    by code_simp
  show ?thesis using h parse_salary_absent [of "''hello, world''"] by blast
qed

lemma strip_Cons_nonspace: "\<not> isspace c \<Longrightarrow> strip (c # r) = c # rstrip r"
  by (simp add: strip_def lstrip_def)

lemma isdigit_not_space: "isdigit c \<Longrightarrow> \<not> isspace c"
  by (auto simp: isdigit_def isspace_def)

text \<open>A number after the keyword is found without a \<open>$\<close>: the result begins with a digit.\<close>

theorem keyword_salary_counterexample:
  "keyword_match ''Salary: 120000'' = Some ''120000''
   \<and> parse_salary ''Salary: 120000'' = Some ''120000''"
  by code_simp

text \<open>
  Claim C6, as amended: a salary found after a keyword is a text that the pattern of the group matches in full, a number with an optional \<open>$\<close> before it, so it begins with \<open>$\<close> or with a digit.
\<close>

theorem keyword_salary_shape:
  assumes "keyword_match inp = Some g"
  shows "[] \<in> set (ms keyword_group g)
     \<and> (\<exists>c r. parse_salary inp = Some (c # r) \<and> (c = CHR ''$'' \<or> isdigit c))"
proof -
  from assms obtain u t where ut: "inp = u @ t" "match_here keyword_pre keyword_group t = Some g"
    unfolding keyword_match_def using search_Some by blast
  from match_here_Some [OF ut(2)] obtain s1 s2 where s: "s1 \<in> set (ms keyword_pre t)"
    "s2 \<in> set (ms keyword_group s1)" "g = take (length s1 - length s2) s1" by blast
  from ms_consumes [OF s(2)] obtain w where w: "s1 = w @ s2"
    "\<forall>t. t \<in> set (ms keyword_group (w @ t))" by blast
  have g: "g = w" using s(3) w(1) by simp
  have full: "[] \<in> set (ms keyword_group g)" using w(2) [rule_format, of "[]"] g by simp
  from keyword_group_start [OF s(2)] obtain c r where c: "s1 = c # r" "length s2 \<le> length r"
    "isdigit c \<or> (c = CHR ''$'' \<and> (\<exists>d r'. r = d # r' \<and> isdigit d))" by blast
  then obtain r' where r': "g = c # r'" using g w(1) by (cases w) auto
  have ns: "\<not> isspace c" using c(3) isdigit_not_space by (auto simp: isspace_def)
  have "parse_salary inp = Some (c # rstrip r')"
    using assms by (simp add: parse_salary_def r' strip_Cons_nonspace [OF ns])
  then show ?thesis using full c(3) by blast
qed

theorem keyword_salary_shape_witness:
  "keyword_match ''Salary: 120000'' = Some ''120000''
   \<and> [] \<in> set (ms keyword_group ''120000'')
   \<and> (\<exists>c r. parse_salary ''Salary: 120000'' = Some (c # r) \<and> (c = CHR ''$'' \<or> isdigit c))"
proof -
  have h: "keyword_match ''Salary: 120000'' = Some ''120000''" by code_simp
  show ?thesis using h keyword_salary_shape [OF h] by blast
qed

section \<open>Properties of the parsers and of the date renderer\<close>

text \<open>
  Where the markup and the structured data both give a location, the posting has the one
  of the markup.
\<close>

theorem bwd_location_counterexample:
  "ld_entry (ld_jobLocation (b_ld both_page)) = Some ''Berlin''
   \<and> location (bwd_job (\<lambda>s. s) toy_urlparse both_page) = Some ''Remote''"
proof -
  have "strip_tags (\<lambda>s. s) ''Remote'' = ''Remote''" by code_simp
  then show ?thesis
    by (simp add: bwd_job_def Let_def both_page_def ld_entry_def)
qed

text \<open>
  Claim C7, as amended: in the posting of the listing-site parser the \<open>url\<close>, the name of the hiring organization, the posting date and the employment type of the structured data, where not empty, are taken before what the markup gives; the location is that of the markup where the markup has one, and the address of the structured data only where it has none.
\<close>

theorem bwd_job_precedence:
  "(truthy (ld_url (b_ld pg))
      \<longrightarrow> apply_url (bwd_job unescape urlparse pg) = ld_url (b_ld pg))
   \<and> (truthy (ld_entry (ld_hiringOrganization (b_ld pg)))
      \<longrightarrow> company (bwd_job unescape urlparse pg) = ld_entry (ld_hiringOrganization (b_ld pg)))
   \<and> (truthy (ld_datePosted (b_ld pg))
      \<longrightarrow> date_posted (bwd_job unescape urlparse pg) = ld_datePosted (b_ld pg))
   \<and> (truthy (ld_employmentType (b_ld pg))
      \<longrightarrow> employment_type (bwd_job unescape urlparse pg) = ld_employmentType (b_ld pg))
   \<and> (b_location pg = None
      \<longrightarrow> location (bwd_job unescape urlparse pg) = ld_entry (ld_jobLocation (b_ld pg)))
   \<and> (\<forall>l. b_location pg = Some l
      \<longrightarrow> location (bwd_job unescape urlparse pg) = Some (strip_tags unescape l))"
  by (simp add: bwd_job_def Let_def por_def)

theorem bwd_job_precedence_witness:
  "truthy (ld_url (b_ld both_page)) \<and> truthy (ld_entry (ld_hiringOrganization (b_ld both_page)))
   \<and> truthy (ld_datePosted (b_ld both_page)) \<and> truthy (ld_employmentType (b_ld both_page))
   \<and> b_location both_page = Some ''Remote''
   \<and> apply_url (bwd_job (\<lambda>s. s) toy_urlparse both_page) = Some ''https://ld.example.com/job''
   \<and> company (bwd_job (\<lambda>s. s) toy_urlparse both_page) = Some ''Acme Corp''
   \<and> date_posted (bwd_job (\<lambda>s. s) toy_urlparse both_page) = Some ''2024-01-05''
   \<and> employment_type (bwd_job (\<lambda>s. s) toy_urlparse both_page) = Some ''CONTRACTOR''
   \<and> location (bwd_job (\<lambda>s. s) toy_urlparse both_page) = Some (strip_tags (\<lambda>s. s) ''Remote'')"
proof -
  have h: "truthy (ld_url (b_ld both_page))"
    "truthy (ld_entry (ld_hiringOrganization (b_ld both_page)))"
    "truthy (ld_datePosted (b_ld both_page))" "truthy (ld_employmentType (b_ld both_page))"
    "b_location both_page = Some ''Remote''"
    by (simp_all add: both_page_def truthy_def ld_entry_def)
  have v: "ld_url (b_ld both_page) = Some ''https://ld.example.com/job''"
    "ld_entry (ld_hiringOrganization (b_ld both_page)) = Some ''Acme Corp''"
    "ld_datePosted (b_ld both_page) = Some ''2024-01-05''"
    "ld_employmentType (b_ld both_page) = Some ''CONTRACTOR''"
    by (simp_all add: both_page_def ld_entry_def)
  show ?thesis
    using h v bwd_job_precedence [of both_page "\<lambda>s. s" toy_urlparse] by simp
qed

lemma canonical_site_url_nonempty: "canonical_site_url urlparse u \<noteq> Some []"
  by (auto simp: canonical_site_url_def split: option.splits)

lemma favicon_of_site:
  "favicon_url (canonical_site_url urlparse u) =
     (case canonical_site_url urlparse u of None \<Rightarrow> None
      | Some s \<Rightarrow> Some (FAVICON_TMPL (quote s '':/'')))"
  using canonical_site_url_nonempty [of urlparse u]
  by (auto simp: favicon_url_def split: option.splits)

lemma favicon_None_iff:
  "favicon_url (canonical_site_url urlparse u) = None \<longleftrightarrow> canonical_site_url urlparse u = None"
  using canonical_site_url_nonempty [of urlparse u]
  by (auto simp: favicon_url_def split: option.splits)

text \<open>
  Claim C8: in the posting of either parser \<open>image_url\<close> is absent exactly when \<open>company_url\<close> is, and else is the favicon template applied to \<open>company_url\<close>, quoted with \<open>:\<close> and \<open>/\<close> kept.
\<close>

theorem image_url_from_company_url:
  "(image_url (python_job unescape urlparse pa) = None
      \<longleftrightarrow> company_url (python_job unescape urlparse pa) = None)
   \<and> image_url (python_job unescape urlparse pa) =
       (case company_url (python_job unescape urlparse pa) of None \<Rightarrow> None
        | Some s \<Rightarrow> Some (FAVICON_TMPL (quote s '':/'')))
   \<and> (image_url (bwd_job unescape urlparse pb) = None
      \<longleftrightarrow> company_url (bwd_job unescape urlparse pb) = None)
   \<and> image_url (bwd_job unescape urlparse pb) =
       (case company_url (bwd_job unescape urlparse pb) of None \<Rightarrow> None
        | Some s \<Rightarrow> Some (FAVICON_TMPL (quote s '':/'')))"
  by (auto simp: python_job_def bwd_job_def Let_def favicon_of_site split: option.splits)

theorem image_url_from_company_url_witness:
  "company_url (python_job (\<lambda>s. s) toy_urlparse feed_page) = Some ''https://acme.example.com''
   \<and> image_url (python_job (\<lambda>s. s) toy_urlparse feed_page) =
       Some (FAVICON_TMPL (quote ''https://acme.example.com'' '':/''))
   \<and> company_url (bwd_job (\<lambda>s. s) toy_urlparse both_page) = Some ''https://ld.example.com''
   \<and> image_url (bwd_job (\<lambda>s. s) toy_urlparse both_page) =
       Some (FAVICON_TMPL (quote ''https://ld.example.com'' '':/''))"
proof -
  have a: "company_url (python_job (\<lambda>s. s) toy_urlparse feed_page) = Some ''https://acme.example.com''"
    by (simp add: python_job_def Let_def feed_page_def canonical_site_url_def toy_urlparse_def)
  have b: "company_url (bwd_job (\<lambda>s. s) toy_urlparse both_page) = Some ''https://ld.example.com''"
    by (simp add: bwd_job_def Let_def both_page_def canonical_site_url_def toy_urlparse_def
          por_def truthy_def)
  show ?thesis
    using a b image_url_from_company_url [of "\<lambda>s. s" toy_urlparse feed_page both_page] by simp
qed

text \<open>
  Claim C9: the publication date is rendered from a value that always has a time zone: the parse of the feed date grammar when it succeeds, else the parse of the generic grammar, else (and for an absent or empty date) the current time in UTC, with a naive parse taken as UTC. Every failure of a parser is caught, so there is no error result.
\<close>

theorem as_rfc2822_fallback:
  "tzinfo (rendered p1 p2 clock v) \<noteq> None
   \<and> as_rfc2822 p1 p2 clock fmt v = fmt (rendered p1 p2 clock v)
   \<and> (\<not> truthy v \<longrightarrow> rendered p1 p2 clock v = now_utc clock)
   \<and> (\<forall>s d. v = Some s \<and> s \<noteq> [] \<and> p1 s = Some d
        \<longrightarrow> calendar (rendered p1 p2 clock v) = calendar d
            \<and> tzinfo (rendered p1 p2 clock v) = (case tzinfo d of None \<Rightarrow> Some 0 | Some z \<Rightarrow> Some z))
   \<and> (\<forall>s d. v = Some s \<and> s \<noteq> [] \<and> p1 s = None \<and> p2 s = Some d
        \<longrightarrow> calendar (rendered p1 p2 clock v) = calendar d
            \<and> tzinfo (rendered p1 p2 clock v) = (case tzinfo d of None \<Rightarrow> Some 0 | Some z \<Rightarrow> Some z))
   \<and> (\<forall>s. v = Some s \<and> s \<noteq> [] \<and> p1 s = None \<and> p2 s = None
        \<longrightarrow> rendered p1 p2 clock v = now_utc clock)"
  by (auto simp: rendered_def as_rfc2822_def now_utc_def truthy_def Let_def split: option.splits)

theorem as_rfc2822_fallback_witness:
  "tzinfo (rendered (\<lambda>s. None) (\<lambda>s. if s = ''2024-01-05'' then Some \<lparr>calendar = (20240105::nat), tzinfo = None\<rparr> else None)
      0 (Some ''2024-01-05'')) = Some 0
   \<and> calendar (rendered (\<lambda>s. None) (\<lambda>s. if s = ''2024-01-05'' then Some \<lparr>calendar = (20240105::nat), tzinfo = None\<rparr> else None)
      0 (Some ''2024-01-05'')) = 20240105"
  using as_rfc2822_fallback [of "\<lambda>s. None"
      "\<lambda>s. if s = ''2024-01-05'' then Some \<lparr>calendar = (20240105::nat), tzinfo = None\<rparr> else None"
      0 "Some ''2024-01-05''"]
  by simp

end
